theory Spec2Isabelle
  imports Complex_Main
begin

section \<open>Non-maximum suppression: the embedding of \<^verbatim>\<open>jtmmcv/ops/nms.py\<close>\<close>

text \<open>
  Arrays of floats are lists of reals: arithmetic is exact, so rounding, infinities and
  NaN are outside the model. A two-dimensional array carries its number of columns
  (\<^verbatim>\<open>size(1)\<close>) beside its rows, since an array with no row still has a width.
  Index arrays are lists of naturals; fancy indexing \<^verbatim>\<open>xs[inds]\<close> is \<open>gather\<close>,
  boolean-mask indexing \<^verbatim>\<open>xs[mask]\<close> is \<open>select\<close>, \<^verbatim>\<open>nonzero\<close> lists the set positions.
\<close>

record var2 =
  ncols :: nat
  rows :: "real list list"

definition wf_var2 :: "var2 \<Rightarrow> bool" where
  "wf_var2 v = list_all (\<lambda>r. length r = ncols v) (rows v)"

definition gather :: "'a list \<Rightarrow> nat list \<Rightarrow> 'a list" where
  "gather xs inds = map (nth xs) inds"

definition select :: "'a list \<Rightarrow> bool list \<Rightarrow> 'a list" where
  "select xs m = map fst (filter snd (zip xs m))"

definition nonzero :: "bool list \<Rightarrow> nat list" where
  "nonzero m = filter (nth m) [0..<length m]"

definition concat_cols :: "real list list \<Rightarrow> real list \<Rightarrow> real list list" where
  "concat_cols bs ss = map2 (\<lambda>b s. b @ [s]) bs ss"

subsection \<open>The library primitive \<^verbatim>\<open>jittor.nms\<close>\<close>

text \<open>
  \<open>prim\<close> is the type of \<^verbatim>\<open>jittor.nms(dets, thresh)\<close>: from an N x 5 array of rows
  \<^verbatim>\<open>[x1, y1, x2, y2, score]\<close> and a threshold to the kept row positions. The functions
  of the source take the primitive as their first argument.
\<close>

type_synonym prim = "real list list \<Rightarrow> real \<Rightarrow> nat list"

text \<open>
  \<^verbatim>\<open>jittor.nms\<close> belongs to the tensor library and is not part of the source file. The
  specification (4.1, step 2) describes it: sort the boxes by score descending, equal
  scores keeping their input order; repeatedly pick the highest-scoring remaining box,
  emit its index, and remove every other remaining box whose intersection-over-union with
  the picked box exceeds the threshold; the area of a box is
  \<^verbatim>\<open>(x2 - x1 + offset) * (y2 - y1 + offset)\<close>. The source hands the primitive the rows and the
  threshold only, so the offset of the areas is a constant \<open>c\<close> of the primitive, and a
  parameter of its model.
\<close>

text \<open>Modelled from the spec: the area of a box, sides widened by \<open>c\<close>.\<close>

definition box_area :: "real \<Rightarrow> real list \<Rightarrow> real" where
  "box_area c a = (a ! 2 - a ! 0 + c) * (a ! 3 - a ! 1 + c)"

text \<open>
  Modelled from the spec: the area of the intersection of two boxes, its sides measured
  like those of a box and cut off at 0.
\<close>

definition box_inter :: "real \<Rightarrow> real list \<Rightarrow> real list \<Rightarrow> real" where
  "box_inter c a b =
     max 0 (min (a ! 2) (b ! 2) - max (a ! 0) (b ! 0) + c) *
     max 0 (min (a ! 3) (b ! 3) - max (a ! 1) (b ! 1) + c)"

text \<open>
  Modelled from the spec: the intersection-over-union of two boxes exceeds the threshold.
  The comparison is written out for a zero denominator, where HOL's \<open>x / 0 = 0\<close> is not
  the float's: a positive numerator gives infinity, above every threshold, and a zero
  one gives NaN, above none.
\<close>

definition iou_exceeds :: "real \<Rightarrow> real \<Rightarrow> real list \<Rightarrow> real list \<Rightarrow> bool" where
  "iou_exceeds c thr a b =
     (let inter = box_inter c a b;
          denom = box_area c a + box_area c b - inter
      in if denom = 0 then 0 < inter else thr < inter / denom)"

text \<open>
  Modelled from the spec: greedy suppression over the candidates in their order. The
  first remaining candidate is picked and emitted, and every other remaining candidate
  that overlaps it too much is removed.
\<close>

fun suppress :: "('a \<Rightarrow> 'a \<Rightarrow> bool) \<Rightarrow> 'a list \<Rightarrow> 'a list" where
  "suppress ov [] = []"
| "suppress ov (p # rest) = p # suppress ov (filter (\<lambda>q. \<not> ov p q) rest)"

text \<open>
  Modelled from the spec: the positions of an array sorted by descending value, equal
  values keeping their input order (\<open>sort_key\<close> is a stable insertion sort). The
  specification leaves the order among equal scores to the library; the stable order is
  the one it names, and the library may break ties otherwise. It also stands for
  \<^verbatim>\<open>sort(descending=True)\<close> on the large-input path of \<^verbatim>\<open>batched_nms\<close>.
\<close>

definition argsort_desc :: "real list \<Rightarrow> nat list" where
  "argsort_desc ss = sort_key (\<lambda>i. - (ss ! i)) [0..<length ss]"

text \<open>
  Modelled from the spec: \<^verbatim>\<open>jittor.nms(dets, thresh)\<close>, the positions of the rows kept by
  greedy suppression in descending order of the fifth column.
\<close>

definition jittor_nms :: "real \<Rightarrow> prim" where
  "jittor_nms c dets thr =
     suppress (\<lambda>i j. iou_exceeds c thr (dets ! i) (dets ! j))
       (argsort_desc (map (\<lambda>d. d ! 4) dets))"

subsection \<open>\<^verbatim>\<open>NMSop.execute\<close> and \<^verbatim>\<open>nms\<close>\<close>

text \<open>
  \<^verbatim>\<open>NMSop.execute\<close>, statement by statement. The argument \<open>offset\<close> is received and
  never used. \<^verbatim>\<open>inds[:max_num]\<close> is \<open>take\<close>; it is reached for a positive \<open>max_num\<close> only.
  Its only caller \<^verbatim>\<open>nms\<close> has checked that boxes and scores are equally many, so the
  mask fits both arrays; the primitive returns positions of the rows it is given, so no
  index is out of range.
\<close>

definition execute :: "prim \<Rightarrow> real list list \<Rightarrow> real list \<Rightarrow> real \<Rightarrow> int \<Rightarrow> real \<Rightarrow> int \<Rightarrow> nat list" where
  "execute p bboxes scores iou_threshold offset score_threshold max_num =
     (let is_filtering_by_score = (0 < score_threshold);
          valid_mask = map (\<lambda>s. score_threshold < s) scores;
          bboxes1 = (if is_filtering_by_score then select bboxes valid_mask else bboxes);
          scores1 = (if is_filtering_by_score then select scores valid_mask else scores);
          valid_inds = nonzero valid_mask;
          inds = p (concat_cols bboxes1 scores1) iou_threshold;
          inds1 = (if 0 < max_num then take (nat max_num) inds else inds)
      in if is_filtering_by_score then gather valid_inds inds1 else inds1)"

text \<open>
  A failing \<^verbatim>\<open>assert\<close> raises \<^verbatim>\<open>AssertionError\<close> (the specification's InvalidArgument);
  a float used as a slice bound raises \<^verbatim>\<open>TypeError\<close>. \<^verbatim>\<open>nms\<close> returns the error or
  the pair \<^verbatim>\<open>(dets, inds)\<close>. The two \<^verbatim>\<open>isinstance\<close> assertions hold by typing; the
  conversion between numpy arrays and library arrays does not change the values.
\<close>

datatype error = AssertionError | TypeError

definition nms :: "prim \<Rightarrow> var2 \<Rightarrow> real list \<Rightarrow> real \<Rightarrow> int \<Rightarrow> real \<Rightarrow> int
    \<Rightarrow> error + (real list list \<times> nat list)" where
  "nms p boxes scores iou_threshold offset score_threshold max_num =
     (if ncols boxes \<noteq> 4 then Inl AssertionError
      else if length (rows boxes) \<noteq> length scores then Inl AssertionError
      else if offset \<noteq> 0 \<and> offset \<noteq> 1 then Inl AssertionError
      else
        let inds = execute p (rows boxes) scores iou_threshold offset score_threshold max_num;
            dets = concat_cols (gather (rows boxes) inds) (gather scores inds)
        in Inr (dets, inds))"

subsection \<open>The configuration dictionary\<close>

text \<open>
  \<^verbatim>\<open>nms_cfg\<close> is a mutable Python dict, and \<^verbatim>\<open>pop\<close> removes a key from the object it is
  called on. Dict objects therefore live in a store, a list of dicts addressed by
  position: \<^verbatim>\<open>copy\<close> allocates a new object at the end of the store, \<^verbatim>\<open>pop\<close> updates the
  object at the given address. The values of a dict are Python's booleans, integers and
  floats; \<open>truthy\<close> is the test of an \<^verbatim>\<open>if\<close>, \<open>to_float\<close> the numeric value used by a
  comparison and by \<^verbatim>\<open>float(...)\<close>, \<open>as_index\<close> the value as a slice bound.
\<close>

datatype cfgval = VBool bool | VInt int | VFloat real

type_synonym dict = "string \<Rightarrow> cfgval option"

type_synonym store = "dict list"

fun truthy :: "cfgval \<Rightarrow> bool" where
  "truthy (VBool b) = b"
| "truthy (VInt i) = (i \<noteq> 0)"
| "truthy (VFloat x) = (x \<noteq> 0)"

fun to_float :: "cfgval \<Rightarrow> real" where
  "to_float (VBool b) = (if b then 1 else 0)"
| "to_float (VInt i) = real_of_int i"
| "to_float (VFloat x) = x"

fun as_index :: "cfgval \<Rightarrow> error + int" where
  "as_index (VBool b) = Inr (if b then 1 else 0)"
| "as_index (VInt i) = Inr i"
| "as_index (VFloat x) = Inl TypeError"

definition dict_copy :: "store \<Rightarrow> nat \<Rightarrow> store \<times> nat" where
  "dict_copy h a = (h @ [h ! a], length h)"

text \<open>
  \<^verbatim>\<open>d.pop(k, default)\<close> returns the value stored under \<open>k\<close>, or the default when the key
  is absent, and leaves the dict at the address without the key.
\<close>

definition pop_value :: "dict \<Rightarrow> string \<Rightarrow> cfgval \<Rightarrow> cfgval" where
  "pop_value d k dflt = (case d k of None \<Rightarrow> dflt | Some v \<Rightarrow> v)"

definition dict_pop :: "store \<Rightarrow> nat \<Rightarrow> string \<Rightarrow> cfgval \<Rightarrow> store \<times> cfgval" where
  "dict_pop h a k dflt = (h[a := (h ! a)(k := None)], pop_value (h ! a) k dflt)"

subsection \<open>\<^verbatim>\<open>batched_nms\<close>\<close>

text \<open>
  \<^verbatim>\<open>boxes.max()\<close> is the largest entry of the array; for an array without entries the
  value 0 stands in, which no result depends on (the offsets are then an empty array).
  \<open>add_offsets\<close> is the \<^verbatim>\<open>else\<close> branch that builds \<^verbatim>\<open>boxes_for_nms\<close>; the group ids
  \<^verbatim>\<open>idxs\<close> are integers, converted to floats by \<^verbatim>\<open>idxs.to(boxes)\<close>.
\<close>

fun maxl :: "real list \<Rightarrow> real" where
  "maxl [] = 0"
| "maxl [x] = x"
| "maxl (x # y # ys) = max x (maxl (y # ys))"

definition max_coordinate :: "var2 \<Rightarrow> real" where
  "max_coordinate boxes = maxl (concat (rows boxes))"

definition add_offsets :: "var2 \<Rightarrow> int list \<Rightarrow> var2" where
  "add_offsets boxes idxs =
     (let offsets = map (\<lambda>g. real_of_int g * (max_coordinate boxes + 1)) idxs
      in boxes\<lparr>rows := map2 (\<lambda>r off. map (\<lambda>x. x + off) r) (rows boxes) offsets\<rparr>)"

text \<open>The branch for fewer than \<^verbatim>\<open>split_thr\<close> boxes, with the final concatenation.\<close>

definition small_path :: "prim \<Rightarrow> var2 \<Rightarrow> var2 \<Rightarrow> real list \<Rightarrow> cfgval
    \<Rightarrow> error + (real list list \<times> nat list)" where
  "small_path p boxes boxes_for_nms scores iou_thr =
     (case nms p boxes_for_nms scores (to_float iou_thr) 0 0 (- 1) of
        Inl e \<Rightarrow> Inl e
      | Inr (dets, keep) \<Rightarrow>
          Inr (concat_cols (gather (rows boxes) keep) (map (\<lambda>d. d ! 4) dets), keep))"

text \<open>
  The other branch. \<open>scatter\<close> is the indexed assignment \<^verbatim>\<open>xs[inds] = vs\<close>. \<^verbatim>\<open>total_mask\<close>
  is an array of float zeros in which \<^verbatim>\<open>True\<close> is stored as 1. The loop runs over
  \<^verbatim>\<open>jittor.unique(idxs)\<close>, the distinct group ids in ascending order, and an error of
  \<^verbatim>\<open>nms\<close> ends it.
\<close>

definition scatter :: "'a list \<Rightarrow> nat list \<Rightarrow> 'a list \<Rightarrow> 'a list" where
  "scatter xs inds vs = fold (\<lambda>(i, v) acc. acc[i := v]) (zip inds vs) xs"

definition unique :: "int list \<Rightarrow> int list" where
  "unique idxs = sort (remdups idxs)"

text \<open>\<^verbatim>\<open>(idxs == id).nonzero().view(-1)\<close>: the positions of the boxes of one group.\<close>

definition group_mask :: "int list \<Rightarrow> int \<Rightarrow> nat list" where
  "group_mask idxs gid = filter (\<lambda>i. idxs ! i = gid) [0..<length idxs]"

fun group_loop :: "prim \<Rightarrow> var2 \<Rightarrow> real list \<Rightarrow> int list \<Rightarrow> cfgval \<Rightarrow> int list
    \<Rightarrow> real list \<times> real list \<Rightarrow> error + (real list \<times> real list)" where
  "group_loop p boxes_for_nms scores idxs iou_thr [] acc = Inr acc"
| "group_loop p boxes_for_nms scores idxs iou_thr (gid # gids) (total_mask, scores_after_nms) =
     (let m = group_mask idxs gid in
      case nms p (boxes_for_nms\<lparr>rows := gather (rows boxes_for_nms) m\<rparr>) (gather scores m)
             (to_float iou_thr) 0 0 (- 1) of
        Inl e \<Rightarrow> Inl e
      | Inr (dets, keep) \<Rightarrow>
          group_loop p boxes_for_nms scores idxs iou_thr gids
            (scatter total_mask (gather m keep) (replicate (length keep) 1),
             scatter scores_after_nms (gather m keep) (map last dets)))"

definition large_path :: "prim \<Rightarrow> var2 \<Rightarrow> var2 \<Rightarrow> real list \<Rightarrow> int list \<Rightarrow> cfgval \<Rightarrow> cfgval
    \<Rightarrow> error + (real list list \<times> nat list)" where
  "large_path p boxes boxes_for_nms scores idxs iou_thr max_num =
     (case group_loop p boxes_for_nms scores idxs iou_thr (unique idxs)
             (replicate (length scores) 0, replicate (length scores) 0) of
        Inl e \<Rightarrow> Inl e
      | Inr (total_mask, scores_after_nms) \<Rightarrow>
          let keep0 = filter (\<lambda>i. total_mask ! i \<noteq> 0) [0..<length total_mask];
              unsorted = gather scores_after_nms keep0;
              inds = argsort_desc unsorted;
              scores1 = gather unsorted inds;
              keep = gather keep0 inds;
              boxes1 = gather (rows boxes) keep
          in if 0 < to_float max_num then
               (case as_index max_num of
                  Inl e \<Rightarrow> Inl e
                | Inr n \<Rightarrow>
                    Inr (concat_cols (take (nat n) boxes1) (take (nat n) scores1),
                         take (nat n) keep))
             else Inr (concat_cols boxes1 scores1, keep))"

text \<open>
  \<^verbatim>\<open>batched_nms\<close> receives the store and the address of the caller's dict, and returns the
  store beside its result. The explicit parameter \<open>class_agnostic\<close> is the default of the
  first \<^verbatim>\<open>pop\<close>.
\<close>

definition batched_nms :: "prim \<Rightarrow> store \<Rightarrow> var2 \<Rightarrow> real list \<Rightarrow> int list \<Rightarrow> nat \<Rightarrow> bool
    \<Rightarrow> store \<times> (error + (real list list \<times> nat list))" where
  "batched_nms p h boxes scores idxs nms_cfg class_agnostic =
     (let (h1, nms_cfg_c) = dict_copy h nms_cfg;
          (h2, class_agnostic1) = dict_pop h1 nms_cfg_c ''class_agnostic'' (VBool class_agnostic);
          boxes_for_nms = (if truthy class_agnostic1 then boxes else add_offsets boxes idxs);
          (h3, iou_thr) = dict_pop h2 nms_cfg_c ''iou_thr'' (VInt 0);
          (h4, split_thr) = dict_pop h3 nms_cfg_c ''split_thr'' (VInt 10000)
      in if real (length (rows boxes_for_nms)) < to_float split_thr then
           (h4, small_path p boxes boxes_for_nms scores iou_thr)
         else
           let (h5, max_num) = dict_pop h4 nms_cfg_c ''max_num'' (VInt (- 1))
           in (h5, large_path p boxes boxes_for_nms scores idxs iou_thr max_num))"

subsection \<open>Valid inputs\<close>

text \<open>
  \<open>group_kept\<close> names the global indices \<^verbatim>\<open>mask[keep]\<close> that the loop body records for
  one group. A valid input of \<^verbatim>\<open>batched_nms\<close> is an N x 4 array with N scores and N group
  ids, and a dict whose \<^verbatim>\<open>max_num\<close>, if present, is not a float (it is used as a slice
  bound).
\<close>

definition group_kept :: "prim \<Rightarrow> var2 \<Rightarrow> real list \<Rightarrow> int list \<Rightarrow> cfgval \<Rightarrow> int \<Rightarrow> nat list" where
  "group_kept p boxes_for_nms scores idxs iou_thr gid =
     gather (group_mask idxs gid)
       (execute p (gather (rows boxes_for_nms) (group_mask idxs gid))
          (gather scores (group_mask idxs gid)) (to_float iou_thr) 0 0 (- 1))"

definition valid_batched_input :: "var2 \<Rightarrow> real list \<Rightarrow> int list \<Rightarrow> dict \<Rightarrow> bool" where
  "valid_batched_input boxes scores idxs cfg =
     (wf_var2 boxes \<and> ncols boxes = 4 \<and> length (rows boxes) = length scores \<and>
      length idxs = length scores \<and>
      (case cfg ''max_num'' of Some (VFloat x) \<Rightarrow> False | _ \<Rightarrow> True))"

text \<open>
  The inputs \<^verbatim>\<open>nms\<close> accepts: an N x 4 array whose rows all have the four entries, as
  many scores as boxes, and an offset of 0 or 1.
\<close>

definition valid_nms_input :: "var2 \<Rightarrow> real list \<Rightarrow> int \<Rightarrow> bool" where
  "valid_nms_input boxes scores offset =
     (wf_var2 boxes \<and> ncols boxes = 4 \<and> length (rows boxes) = length scores \<and>
      (offset = 0 \<or> offset = 1))"

section \<open>Properties\<close>

lemma length_concat_cols: "length (concat_cols bs ss) = min (length bs) (length ss)"
  by (simp add: concat_cols_def)

subsection \<open>Lists: selection, gathering, sorting\<close>

lemma nonzero_snoc:
  "nonzero (m @ [b]) = nonzero m @ (if b then [length m] else [])"
proof -
  have "filter (nth (m @ [b])) [0..<length m] = filter (nth m) [0..<length m]"
    by (rule filter_cong) (auto simp: nth_append)
  then show ?thesis by (simp add: nonzero_def)
qed

lemma select_eq_gather:
  "length xs = length m \<Longrightarrow> select xs m = gather xs (nonzero m)"
proof (induction m arbitrary: xs rule: rev_induct)
  case Nil
  then show ?case by (simp add: select_def gather_def nonzero_def)
next
  case (snoc b m)
  then obtain ys y where xs: "xs = ys @ [y]" and len: "length ys = length m"
    by (cases xs rule: rev_cases) auto
  have ih: "select ys m = gather ys (nonzero m)" using snoc.IH len by simp
  have in_range: "\<forall>i\<in>set (nonzero m). i < length ys"
    by (simp add: nonzero_def len)
  have "gather (ys @ [y]) (nonzero m) = gather ys (nonzero m)"
    using in_range by (simp add: gather_def nth_append)
  moreover have "select (ys @ [y]) (m @ [b]) = select ys m @ (if b then [y] else [])"
    using len by (simp add: select_def)
  ultimately show ?case
    using ih len by (simp add: xs nonzero_snoc gather_def nth_append)
qed

lemma nonzero_in_range: "i \<in> set (nonzero m) \<Longrightarrow> i < length m \<and> m ! i"
  by (simp add: nonzero_def)

lemma nonzero_distinct: "distinct (nonzero m)"
  by (simp add: nonzero_def)

lemma nonzero_sorted: "sorted_wrt (<) (nonzero m)"
  by (simp add: nonzero_def sorted_wrt_filter)

lemma length_select: "length xs = length m \<Longrightarrow> length (select xs m) = length (nonzero m)"
  by (simp add: select_eq_gather gather_def)

lemma set_select_subset: "set (select xs m) \<subseteq> set xs"
  by (auto simp: select_def dest: set_zip_leftD)

lemma set_argsort_desc: "set (argsort_desc ss) = {0..<length ss}"
  by (simp add: argsort_desc_def)

lemma distinct_argsort_desc: "distinct (argsort_desc ss)"
  by (simp add: argsort_desc_def)

lemma length_argsort_desc: "length (argsort_desc ss) = length ss"
  by (simp add: argsort_desc_def)

lemma sorted_argsort_desc: "sorted_wrt (\<lambda>i j. ss ! j \<le> ss ! i) (argsort_desc ss)"
proof -
  have "sorted (map (\<lambda>i. - (ss ! i)) (argsort_desc ss))"
    unfolding argsort_desc_def by (rule sorted_sort_key)
  then show ?thesis by (simp add: sorted_map)
qed

subsection \<open>Greedy suppression\<close>

lemma set_suppress_subset: "set (suppress ov xs) \<subseteq> set xs"
  by (induction ov xs rule: suppress.induct) auto

lemma distinct_suppress: "distinct xs \<Longrightarrow> distinct (suppress ov xs)"
proof (induction ov xs rule: suppress.induct)
  case (1 ov)
  then show ?case by simp
next
  case (2 ov p rest)
  have "p \<notin> set (suppress ov (filter (\<lambda>q. \<not> ov p q) rest))"
    using 2(2) set_suppress_subset [of ov "filter (\<lambda>q. \<not> ov p q) rest"] by auto
  then show ?case using 2 by simp
qed

lemma sorted_wrt_suppress: "sorted_wrt R xs \<Longrightarrow> sorted_wrt R (suppress ov xs)"
proof (induction ov xs rule: suppress.induct)
  case (1 ov)
  then show ?case by simp
next
  case (2 ov p rest)
  have "\<forall>q\<in>set (suppress ov (filter (\<lambda>q. \<not> ov p q) rest)). R p q"
    using 2(2) set_suppress_subset [of ov "filter (\<lambda>q. \<not> ov p q) rest"] by auto
  then show ?case using 2 by (simp add: sorted_wrt_filter)
qed

lemma length_suppress: "length (suppress ov xs) \<le> length xs"
proof (induction ov xs rule: suppress.induct)
  case (1 ov)
  then show ?case by simp
next
  case (2 ov p rest)
  have "length (filter (\<lambda>q. \<not> ov p q) rest) \<le> length rest" by simp
  with 2 have "length (suppress ov (filter (\<lambda>q. \<not> ov p q) rest)) \<le> length rest"
    by (rule le_trans)
  then show ?case by simp
qed

subsection \<open>The primitive returns distinct positions of its input, by descending score\<close>

lemma jittor_nms_in_range: "i \<in> set (jittor_nms c dets thr) \<Longrightarrow> i < length dets"
proof -
  assume "i \<in> set (jittor_nms c dets thr)"
  then have "i \<in> set (argsort_desc (map (\<lambda>d. d ! 4) dets))"
    unfolding jittor_nms_def using set_suppress_subset by fastforce
  then show ?thesis by (simp add: set_argsort_desc)
qed

lemma jittor_nms_distinct: "distinct (jittor_nms c dets thr)"
  by (simp add: jittor_nms_def distinct_suppress distinct_argsort_desc)

lemma jittor_nms_sorted:
  "sorted_wrt (\<lambda>i j. dets ! j ! 4 \<le> dets ! i ! 4) (jittor_nms c dets thr)"
proof -
  let ?ss = "map (\<lambda>d. d ! 4) dets"
  have "sorted_wrt (\<lambda>i j. ?ss ! j \<le> ?ss ! i) (jittor_nms c dets thr)"
    unfolding jittor_nms_def by (rule sorted_wrt_suppress) (rule sorted_argsort_desc)
  moreover have "\<forall>i\<in>set (jittor_nms c dets thr). i < length dets"
    by (simp add: jittor_nms_in_range)
  ultimately show ?thesis
    by (auto elim!: sorted_wrt_mono_rel [rotated])
qed

subsection \<open>\<open>execute\<close>\<close>

lemma concat_cols_score:
  assumes "length bs = length ss" "\<forall>b\<in>set bs. length b = 4" "i < length ss"
  shows "concat_cols bs ss ! i ! 4 = ss ! i"
  using assms by (simp add: concat_cols_def nth_append)

lemma execute_unfiltered:
  "\<not> 0 < st \<Longrightarrow> execute p bs ss t off st mn =
     (if 0 < mn then take (nat mn) (p (concat_cols bs ss) t) else p (concat_cols bs ss) t)"
  by (simp add: execute_def Let_def)

lemma execute_filtered:
  "0 < st \<Longrightarrow> execute p bs ss t off st mn =
     gather (nonzero (map (\<lambda>s. st < s) ss))
       (execute p (select bs (map (\<lambda>s. st < s) ss)) (select ss (map (\<lambda>s. st < s) ss)) t off 0 mn)"
  by (simp add: execute_def Let_def)

lemma execute_offset_irrelevant:
  "execute p bs ss t off st mn = execute p bs ss t off' st mn"
  by (simp add: execute_def)

lemma execute_take:
  "0 < mn \<Longrightarrow> execute p bs ss t off st mn = take (nat mn) (execute p bs ss t off st (- 1))"
  by (simp add: execute_def Let_def gather_def take_map)

lemma execute_unfiltered_props:
  assumes len: "length bs = length ss" and four: "\<forall>b\<in>set bs. length b = 4" and st: "\<not> 0 < st"
  shows "distinct (execute (jittor_nms c) bs ss t off st mn)"
    and "\<forall>i\<in>set (execute (jittor_nms c) bs ss t off st mn). i < length ss"
    and "sorted_wrt (\<lambda>i j. ss ! j \<le> ss ! i) (execute (jittor_nms c) bs ss t off st mn)"
proof -
  let ?dets = "concat_cols bs ss"
  let ?r = "jittor_nms c ?dets t"
  have ldets: "length ?dets = length ss" using len by (simp add: length_concat_cols)
  have range: "\<forall>i\<in>set ?r. i < length ss"
    using jittor_nms_in_range [of _ c ?dets t] ldets by auto
  have "sorted_wrt (\<lambda>i j. ?dets ! j ! 4 \<le> ?dets ! i ! 4) ?r" by (rule jittor_nms_sorted)
  then have sorted: "sorted_wrt (\<lambda>i j. ss ! j \<le> ss ! i) ?r"
  proof (rule sorted_wrt_mono_rel [rotated])
    fix i j assume "i \<in> set ?r" "j \<in> set ?r" "?dets ! j ! 4 \<le> ?dets ! i ! 4"
    then show "ss ! j \<le> ss ! i"
      using range concat_cols_score [OF len four] by simp
  qed
  have ex: "execute (jittor_nms c) bs ss t off st mn = (if 0 < mn then take (nat mn) ?r else ?r)"
    using st by (rule execute_unfiltered)
  show "distinct (execute (jittor_nms c) bs ss t off st mn)"
    by (simp add: ex jittor_nms_distinct)
  show "\<forall>i\<in>set (execute (jittor_nms c) bs ss t off st mn). i < length ss"
    using range by (auto simp: ex dest: in_set_takeD)
  show "sorted_wrt (\<lambda>i j. ss ! j \<le> ss ! i) (execute (jittor_nms c) bs ss t off st mn)"
    using sorted by (simp add: ex sorted_wrt_take)
qed

lemma execute_props:
  assumes len: "length bs = length ss" and four: "\<forall>b\<in>set bs. length b = 4"
  shows "distinct (execute (jittor_nms c) bs ss t off st mn)"
    and "\<forall>i\<in>set (execute (jittor_nms c) bs ss t off st mn). i < length ss \<and> (0 < st \<longrightarrow> st < ss ! i)"
    and "sorted_wrt (\<lambda>i j. ss ! j \<le> ss ! i) (execute (jittor_nms c) bs ss t off st mn)"
proof -
  let ?r = "execute (jittor_nms c) bs ss t off st mn"
  have "distinct ?r \<and> (\<forall>i\<in>set ?r. i < length ss \<and> (0 < st \<longrightarrow> st < ss ! i)) \<and>
        sorted_wrt (\<lambda>i j. ss ! j \<le> ss ! i) ?r"
  proof (cases "0 < st")
    case False
    then show ?thesis using execute_unfiltered_props [OF len four False] by simp
  next
    case True
    let ?m = "map (\<lambda>s. st < s) ss"
    let ?vi = "nonzero ?m"
    let ?bs1 = "select bs ?m"
    let ?ss1 = "select ss ?m"
    let ?inner = "execute (jittor_nms c) ?bs1 ?ss1 t off 0 mn"
    have r: "?r = gather ?vi ?inner" using True by (rule execute_filtered)
    have len1: "length ?bs1 = length ?ss1" using len by (simp add: length_select)
    have lss1: "length ?ss1 = length ?vi" by (simp add: length_select)
    have four1: "\<forall>b\<in>set ?bs1. length b = 4" using four set_select_subset by fastforce
    have ss1: "?ss1 = gather ss ?vi" by (simp add: select_eq_gather)
    have d0: "distinct ?inner" and r0: "\<forall>k\<in>set ?inner. k < length ?vi"
      and s0: "sorted_wrt (\<lambda>i j. ?ss1 ! j \<le> ?ss1 ! i) ?inner"
      using execute_unfiltered_props [OF len1 four1, of 0 c t off mn] lss1 by simp_all
    have inj: "inj_on (nth ?vi) (set ?inner)"
      using r0 nonzero_distinct [of ?m] by (auto simp: inj_on_def nth_eq_iff_index_eq)
    have "distinct ?r" using d0 inj by (simp add: r gather_def distinct_map)
    moreover have "\<forall>i\<in>set ?r. i < length ss \<and> (0 < st \<longrightarrow> st < ss ! i)"
    proof
      fix i assume "i \<in> set ?r"
      then obtain k where "k \<in> set ?inner" "i = ?vi ! k" by (auto simp: r gather_def)
      then have "i \<in> set ?vi" using r0 by simp
      then show "i < length ss \<and> (0 < st \<longrightarrow> st < ss ! i)"
        using nonzero_in_range [of i ?m] by auto
    qed
    moreover have "sorted_wrt (\<lambda>i j. ss ! j \<le> ss ! i) ?r"
    proof -
      have "sorted_wrt (\<lambda>i j. ss ! (?vi ! j) \<le> ss ! (?vi ! i)) ?inner"
        using s0
      proof (rule sorted_wrt_mono_rel [rotated])
        fix i j assume "i \<in> set ?inner" "j \<in> set ?inner" "?ss1 ! j \<le> ?ss1 ! i"
        then show "ss ! (?vi ! j) \<le> ss ! (?vi ! i)"
          using r0 by (simp add: ss1 gather_def)
      qed
      then show ?thesis by (simp add: r gather_def sorted_wrt_map)
    qed
    ultimately show ?thesis by simp
  qed
  then show "distinct ?r"
    and "\<forall>i\<in>set ?r. i < length ss \<and> (0 < st \<longrightarrow> st < ss ! i)"
    and "sorted_wrt (\<lambda>i j. ss ! j \<le> ss ! i) ?r"
    by simp_all
qed

subsection \<open>\<open>nms\<close>\<close>

lemma nms_valid:
  "valid_nms_input boxes scores off \<Longrightarrow>
   nms p boxes scores t off st mn =
     Inr (concat_cols (gather (rows boxes) (execute p (rows boxes) scores t off st mn))
            (gather scores (execute p (rows boxes) scores t off st mn)),
          execute p (rows boxes) scores t off st mn)"
  by (auto simp: valid_nms_input_def nms_def Let_def)

lemma valid_rows_four: "valid_nms_input boxes scores off \<Longrightarrow> \<forall>b\<in>set (rows boxes). length b = 4"
  by (simp add: valid_nms_input_def wf_var2_def list_all_iff)

lemma dets_scores:
  assumes "\<forall>b\<in>set bs. length b = 4" "\<forall>i\<in>set inds. i < length bs"
  shows "map (\<lambda>d. d ! 4) (concat_cols (gather bs inds) (gather ss inds)) = gather ss inds"
proof (rule nth_equalityI)
  show "length (map (\<lambda>d. d ! 4) (concat_cols (gather bs inds) (gather ss inds))) = length (gather ss inds)"
    by (simp add: length_concat_cols gather_def)
next
  fix i assume "i < length (map (\<lambda>d. d ! 4) (concat_cols (gather bs inds) (gather ss inds)))"
  then have i: "i < length inds" by (simp add: length_concat_cols gather_def)
  then have "length (bs ! (inds ! i)) = 4" using assms by simp
  then show "map (\<lambda>d. d ! 4) (concat_cols (gather bs inds) (gather ss inds)) ! i = gather ss inds ! i"
    using i by (simp add: concat_cols_def gather_def nth_append)
qed

section \<open>The claims about \<^verbatim>\<open>nms\<close>\<close>

lemma concat_cols_take:
  "concat_cols (take n bs) (take n ss) = take n (concat_cols bs ss)"
  by (simp add: concat_cols_def take_map take_zip)

lemma gather_take: "gather xs (take n inds) = take n (gather xs inds)"
  by (simp add: gather_def take_map)

lemma gather_gather:
  "\<forall>k\<in>set inds. k < length vi \<Longrightarrow> gather (gather xs vi) inds = gather xs (gather vi inds)"
  by (simp add: gather_def)

text \<open>
  Claim C6. If the boxes do not have exactly 4 columns, or boxes and scores differ in their
  leading dimension, or the offset is neither 0 nor 1, \<^verbatim>\<open>nms\<close> fails with the error of its
  assertions (\<^verbatim>\<open>AssertionError\<close>, the specification's InvalidArgument). The result is the
  error alone, whatever the primitive would compute: the checks come before any call of it.
\<close>

theorem nms_rejects_invalid:
  "ncols boxes \<noteq> 4 \<or> length (rows boxes) \<noteq> length scores \<or> (offset \<noteq> 0 \<and> offset \<noteq> 1) \<Longrightarrow>
   nms p boxes scores iou_threshold offset score_threshold max_num = Inl AssertionError"
  by (auto simp: nms_def)

theorem nms_rejects_invalid_witness:
  "nms (jittor_nms 1) \<lparr>ncols = 3, rows = [[0, 0, 1]]\<rparr> [1] 0 0 0 (- 1) = Inl AssertionError \<and>
   nms (jittor_nms 1) \<lparr>ncols = 4, rows = [[0, 0, 1, 1]]\<rparr> [1, 2] 0 0 0 (- 1) = Inl AssertionError \<and>
   nms (jittor_nms 1) \<lparr>ncols = 4, rows = [[0, 0, 1, 1]]\<rparr> [1] 0 2 0 (- 1) = Inl AssertionError"
proof -
  have a: "ncols \<lparr>ncols = 3, rows = [[0, 0, 1 :: real]]\<rparr> \<noteq> 4" by simp
  have b: "length (rows \<lparr>ncols = 4, rows = [[0, 0, 1, 1 :: real]]\<rparr>) \<noteq> length [1, 2 :: real]" by simp
  have c: "(2 :: int) \<noteq> 0 \<and> (2 :: int) \<noteq> 1" by simp
  show ?thesis
    using nms_rejects_invalid [of "\<lparr>ncols = 3, rows = [[0, 0, 1]]\<rparr>" "[1]" 0 "jittor_nms 1" 0 0 "- 1"]
      nms_rejects_invalid [of "\<lparr>ncols = 4, rows = [[0, 0, 1, 1]]\<rparr>" "[1, 2]" 0 "jittor_nms 1" 0 0 "- 1"]
      nms_rejects_invalid [of "\<lparr>ncols = 4, rows = [[0, 0, 1, 1]]\<rparr>" "[1]" 2 "jittor_nms 1" 0 0 "- 1"]
      a b c
    by simp
qed

text \<open>
  Claim C7. The docstring of \<^verbatim>\<open>nms\<close> promises widths and heights of \<^verbatim>\<open>x2 - x1 + offset\<close>, so
  that some input would be kept differently under offset 1 and offset 0. The code never
  hands \<open>offset\<close> to the suppression: for every primitive and every input the two offsets
  give the same result. \<open>area_conventions_differ\<close> below shows an input on which the two
  conventions themselves do differ.
\<close>

theorem nms_ignores_offset:
  "nms p boxes scores iou_threshold 0 score_threshold max_num =
   nms p boxes scores iou_threshold 1 score_threshold max_num"
  by (simp add: nms_def execute_offset_irrelevant [of p _ _ _ 0 _ _ 1])

lemma area_conventions_differ:
  "jittor_nms 0 [[0, 0, 1, 1, 9 / 10], [1, 0, 2, 1, 8 / 10]] (3 / 10) = [0, 1] \<and>
   jittor_nms 1 [[0, 0, 1, 1, 9 / 10], [1, 0, 2, 1, 8 / 10]] (3 / 10) = [0]"
  by code_simp

text \<open>
  Claim C2. For every valid input of \<^verbatim>\<open>nms\<close>, the call returns, and the scores of the
  returned rows (their fifth column, the scores of the kept boxes in the order of the
  returned indices) are non-increasing.
\<close>

theorem nms_scores_non_increasing:
  assumes "valid_nms_input boxes scores offset"
  shows "\<exists>dets inds.
           nms (jittor_nms c) boxes scores iou_threshold offset score_threshold max_num = Inr (dets, inds) \<and>
           sorted_wrt (\<lambda>a b. b \<le> a) (map (\<lambda>d. d ! 4) dets) \<and>
           map (\<lambda>d. d ! 4) dets = gather scores inds"
proof -
  let ?inds = "execute (jittor_nms c) (rows boxes) scores iou_threshold offset score_threshold max_num"
  let ?dets = "concat_cols (gather (rows boxes) ?inds) (gather scores ?inds)"
  have len: "length (rows boxes) = length scores" using assms by (simp add: valid_nms_input_def)
  have four: "\<forall>b\<in>set (rows boxes). length b = 4" using assms by (rule valid_rows_four)
  have range: "\<forall>i\<in>set ?inds. i < length (rows boxes)"
    using execute_props(2) [OF len four] len by simp
  have col: "map (\<lambda>d. d ! 4) ?dets = gather scores ?inds"
    using four range by (rule dets_scores)
  have "sorted_wrt (\<lambda>i j. scores ! j \<le> scores ! i) ?inds"
    using execute_props(3) [OF len four] .
  then have "sorted_wrt (\<lambda>a b. b \<le> a) (gather scores ?inds)"
    by (simp add: gather_def sorted_wrt_map)
  then show ?thesis
    using nms_valid [OF assms] col by simp
qed

theorem nms_scores_non_increasing_witness:
  "valid_nms_input \<lparr>ncols = 4, rows = [[0, 0, 2, 2], [0, 0, 2, 2], [5, 5, 6, 6]]\<rparr> [5 / 10, 9 / 10, 7 / 10] 0 \<and>
   (\<exists>dets inds.
      nms (jittor_nms 1) \<lparr>ncols = 4, rows = [[0, 0, 2, 2], [0, 0, 2, 2], [5, 5, 6, 6]]\<rparr>
        [5 / 10, 9 / 10, 7 / 10] (1 / 2) 0 0 (- 1) = Inr (dets, inds) \<and>
      sorted_wrt (\<lambda>a b. b \<le> a) (map (\<lambda>d. d ! 4) dets) \<and>
      map (\<lambda>d. d ! 4) dets = gather [5 / 10, 9 / 10, 7 / 10] inds)"
proof -
  have h: "valid_nms_input \<lparr>ncols = 4, rows = [[0, 0, 2, 2], [0, 0, 2, 2], [5, 5, 6, 6]]\<rparr>
             [5 / 10, 9 / 10, 7 / 10] 0"
    by (simp add: valid_nms_input_def wf_var2_def)
  show ?thesis
    using h nms_scores_non_increasing [OF h, of 1 "1 / 2" 0 "- 1"] by blast
qed

text \<open>
  Claim C3. For a valid input and a positive \<open>max_num\<close>, \<^verbatim>\<open>nms\<close> returns the first
  \<open>max_num\<close> entries of what it returns without a limit, so at most \<open>max_num\<close> indices,
  and none of the entries cut off scores higher than a returned one.
\<close>

theorem nms_max_num_top_scoring:
  assumes "valid_nms_input boxes scores offset" and "0 < max_num"
  shows "\<exists>dets inds dets0 inds0.
           nms (jittor_nms c) boxes scores iou_threshold offset score_threshold max_num = Inr (dets, inds) \<and>
           nms (jittor_nms c) boxes scores iou_threshold offset score_threshold (- 1) = Inr (dets0, inds0) \<and>
           inds = take (nat max_num) inds0 \<and> dets = take (nat max_num) dets0 \<and>
           length inds \<le> nat max_num \<and>
           (\<forall>i\<in>set inds. \<forall>j\<in>set (drop (nat max_num) inds0). scores ! j \<le> scores ! i)"
proof -
  let ?n = "nat max_num"
  let ?full = "execute (jittor_nms c) (rows boxes) scores iou_threshold offset score_threshold (- 1)"
  let ?inds = "execute (jittor_nms c) (rows boxes) scores iou_threshold offset score_threshold max_num"
  have len: "length (rows boxes) = length scores" using assms by (simp add: valid_nms_input_def)
  have four: "\<forall>b\<in>set (rows boxes). length b = 4" using assms(1) by (rule valid_rows_four)
  have inds: "?inds = take ?n ?full" using assms(2) by (rule execute_take)
  have "sorted_wrt (\<lambda>i j. scores ! j \<le> scores ! i) (take ?n ?full @ drop ?n ?full)"
    using execute_props(3) [OF len four, of c iou_threshold offset score_threshold "- 1"] by simp
  then have top: "\<forall>i\<in>set (take ?n ?full). \<forall>j\<in>set (drop ?n ?full). scores ! j \<le> scores ! i"
    unfolding sorted_wrt_append by blast
  have dets: "concat_cols (gather (rows boxes) ?inds) (gather scores ?inds) =
      take ?n (concat_cols (gather (rows boxes) ?full) (gather scores ?full))"
    by (simp add: inds gather_take concat_cols_take)
  show ?thesis
    using nms_valid [OF assms(1), of "jittor_nms c" iou_threshold score_threshold max_num]
      nms_valid [OF assms(1), of "jittor_nms c" iou_threshold score_threshold "- 1"]
      inds dets top
    by simp
qed

theorem nms_max_num_top_scoring_witness:
  "valid_nms_input \<lparr>ncols = 4, rows = [[0, 0, 2, 2], [0, 0, 2, 2], [5, 5, 6, 6]]\<rparr> [5 / 10, 9 / 10, 7 / 10] 0 \<and>
   (0 :: int) < 1 \<and>
   (\<exists>dets inds dets0 inds0.
      nms (jittor_nms 1) \<lparr>ncols = 4, rows = [[0, 0, 2, 2], [0, 0, 2, 2], [5, 5, 6, 6]]\<rparr>
        [5 / 10, 9 / 10, 7 / 10] (1 / 2) 0 0 1 = Inr (dets, inds) \<and>
      nms (jittor_nms 1) \<lparr>ncols = 4, rows = [[0, 0, 2, 2], [0, 0, 2, 2], [5, 5, 6, 6]]\<rparr>
        [5 / 10, 9 / 10, 7 / 10] (1 / 2) 0 0 (- 1) = Inr (dets0, inds0) \<and>
      inds = take (nat 1) inds0 \<and> dets = take (nat 1) dets0 \<and>
      length inds \<le> nat 1 \<and>
      (\<forall>i\<in>set inds. \<forall>j\<in>set (drop (nat 1) inds0).
         [5 / 10, 9 / 10, 7 / 10 :: real] ! j \<le> [5 / 10, 9 / 10, 7 / 10] ! i))"
proof -
  have h: "valid_nms_input \<lparr>ncols = 4, rows = [[0, 0, 2, 2], [0, 0, 2, 2], [5, 5, 6, 6]]\<rparr>
             [5 / 10, 9 / 10, 7 / 10] 0"
    by (simp add: valid_nms_input_def wf_var2_def)
  have p: "(0 :: int) < 1" by simp
  show ?thesis
    using h p nms_max_num_top_scoring [OF h p, of 1 "1 / 2" 0] by blast
qed

text \<open>
  Claim C4. For a valid input and a positive \<open>score_threshold\<close>, \<^verbatim>\<open>nms\<close> returns what it
  returns on the surviving boxes alone (those scoring above the threshold), each index
  mapped back through \<open>valid_inds\<close>; the returned rows are the same, and every returned
  index is a position of the original arrays whose score exceeds the threshold.
\<close>

theorem nms_score_threshold_filter:
  assumes "valid_nms_input boxes scores offset" and "0 < score_threshold"
  shows "\<exists>dets inds inds0.
           nms (jittor_nms c) boxes scores iou_threshold offset score_threshold max_num = Inr (dets, inds) \<and>
           nms (jittor_nms c) (boxes\<lparr>rows := select (rows boxes) (map (\<lambda>s. score_threshold < s) scores)\<rparr>)
             (select scores (map (\<lambda>s. score_threshold < s) scores)) iou_threshold offset 0 max_num
             = Inr (dets, inds0) \<and>
           inds = gather (nonzero (map (\<lambda>s. score_threshold < s) scores)) inds0 \<and>
           (\<forall>i\<in>set inds. i < length scores \<and> score_threshold < scores ! i)"
proof -
  let ?m = "map (\<lambda>s. score_threshold < s) scores"
  let ?vi = "nonzero ?m"
  let ?bs1 = "select (rows boxes) ?m"
  let ?ss1 = "select scores ?m"
  let ?inds = "execute (jittor_nms c) (rows boxes) scores iou_threshold offset score_threshold max_num"
  let ?inner = "execute (jittor_nms c) ?bs1 ?ss1 iou_threshold offset 0 max_num"
  have len: "length (rows boxes) = length scores" using assms by (simp add: valid_nms_input_def)
  have four: "\<forall>b\<in>set (rows boxes). length b = 4" using assms(1) by (rule valid_rows_four)
  have len1: "length ?bs1 = length ?ss1" using len by (simp add: length_select)
  have four1: "\<forall>b\<in>set ?bs1. length b = 4" using four set_select_subset by fastforce
  have valid1: "valid_nms_input (boxes\<lparr>rows := ?bs1\<rparr>) ?ss1 offset"
    using assms(1) len1 four1 by (simp add: valid_nms_input_def wf_var2_def list_all_iff)
  have inds: "?inds = gather ?vi ?inner" using assms(2) by (rule execute_filtered)
  have range: "\<forall>k\<in>set ?inner. k < length ?vi"
    using execute_props(2) [OF len1 four1, of c iou_threshold offset 0 max_num]
    by (simp add: length_select)
  have "gather (rows boxes) ?inds = gather ?bs1 ?inner" "gather scores ?inds = gather ?ss1 ?inner"
    using range len by (simp_all add: inds select_eq_gather gather_gather)
  then have dets: "concat_cols (gather (rows boxes) ?inds) (gather scores ?inds) =
      concat_cols (gather ?bs1 ?inner) (gather ?ss1 ?inner)"
    by simp
  have orig: "\<forall>i\<in>set ?inds. i < length scores \<and> score_threshold < scores ! i"
    using execute_props(2) [OF len four, of c iou_threshold offset score_threshold max_num] assms(2)
    by simp
  show ?thesis
    using nms_valid [OF assms(1), of "jittor_nms c" iou_threshold score_threshold max_num]
      nms_valid [OF valid1, of "jittor_nms c" iou_threshold 0 max_num] inds dets orig
    by simp
qed

theorem nms_score_threshold_filter_witness:
  "valid_nms_input \<lparr>ncols = 4, rows = [[0, 0, 2, 2], [0, 0, 2, 2], [5, 5, 6, 6]]\<rparr> [5 / 10, 9 / 10, 7 / 10] 0 \<and>
   (0 :: real) < 6 / 10 \<and>
   (\<exists>dets inds inds0.
      nms (jittor_nms 1) \<lparr>ncols = 4, rows = [[0, 0, 2, 2], [0, 0, 2, 2], [5, 5, 6, 6]]\<rparr>
        [5 / 10, 9 / 10, 7 / 10] (1 / 2) 0 (6 / 10) (- 1) = Inr (dets, inds) \<and>
      nms (jittor_nms 1)
        (\<lparr>ncols = 4, rows = [[0, 0, 2, 2], [0, 0, 2, 2], [5, 5, 6, 6]]\<rparr>
           \<lparr>rows := select (rows \<lparr>ncols = 4, rows = [[0, 0, 2, 2], [0, 0, 2, 2], [5, 5, 6, 6]]\<rparr>)
              (map (\<lambda>s. 6 / 10 < s) [5 / 10, 9 / 10, 7 / 10 :: real])\<rparr>)
        (select [5 / 10, 9 / 10, 7 / 10] (map (\<lambda>s. 6 / 10 < s) [5 / 10, 9 / 10, 7 / 10 :: real]))
        (1 / 2) 0 0 (- 1) = Inr (dets, inds0) \<and>
      inds = gather (nonzero (map (\<lambda>s. 6 / 10 < s) [5 / 10, 9 / 10, 7 / 10 :: real])) inds0 \<and>
      (\<forall>i\<in>set inds. i < length [5 / 10, 9 / 10, 7 / 10 :: real] \<and>
         6 / 10 < [5 / 10, 9 / 10, 7 / 10 :: real] ! i))"
proof -
  have h: "valid_nms_input \<lparr>ncols = 4, rows = [[0, 0, 2, 2], [0, 0, 2, 2], [5, 5, 6, 6]]\<rparr>
             [5 / 10, 9 / 10, 7 / 10] 0"
    by (simp add: valid_nms_input_def wf_var2_def)
  have p: "(0 :: real) < 6 / 10" by simp
  show ?thesis
    using h p nms_score_threshold_filter [OF h p, of 1 "1 / 2" "- 1"] by blast
qed

section \<open>The configuration dictionary and the store\<close>

subsection \<open>The store\<close>

lemma pop_value_other: "k \<noteq> k' \<Longrightarrow> pop_value (d(k := None)) k' dflt = pop_value d k' dflt"
  by (simp add: pop_value_def)

lemma dict_pop_removes: "dict_pop [[k \<mapsto> v]] 0 k dflt = ([Map.empty], v)"
  by (simp add: dict_pop_def pop_value_def)

lemma batched_nms_snd:
  assumes "a < length h"
  shows "snd (batched_nms p h boxes scores idxs a ca) =
     (let cfg = h ! a;
          bfn = (if truthy (pop_value cfg ''class_agnostic'' (VBool ca)) then boxes
                 else add_offsets boxes idxs);
          iou = pop_value cfg ''iou_thr'' (VInt 0)
      in if real (length (rows bfn)) < to_float (pop_value cfg ''split_thr'' (VInt 10000))
         then small_path p boxes bfn scores iou
         else large_path p boxes bfn scores idxs iou (pop_value cfg ''max_num'' (VInt (- 1))))"
  using assms
  by (simp add: batched_nms_def dict_copy_def dict_pop_def Let_def nth_append pop_value_other)

lemma batched_nms_fst:
  assumes "a < length h"
  shows "\<exists>d. fst (batched_nms p h boxes scores idxs a ca) = h @ [d] \<and>
             d ''class_agnostic'' = None \<and> d ''iou_thr'' = None \<and> d ''split_thr'' = None"
  using assms
  by (simp add: batched_nms_def dict_copy_def dict_pop_def Let_def nth_append)

text \<open>
  Claim C10. \<^verbatim>\<open>batched_nms\<close> does not change the caller's dict: after the call the store
  holds the object at the caller's address as it was. The store has grown by one object,
  the private copy, and it is the copy that has lost the popped keys.
\<close>

theorem batched_nms_keeps_caller_dict:
  assumes "nms_cfg < length h"
  shows "fst (batched_nms p h boxes scores idxs nms_cfg class_agnostic) ! nms_cfg = h ! nms_cfg \<and>
         (\<exists>d. fst (batched_nms p h boxes scores idxs nms_cfg class_agnostic) = h @ [d] \<and>
              d ''class_agnostic'' = None \<and> d ''iou_thr'' = None \<and> d ''split_thr'' = None)"
proof -
  obtain d where d: "fst (batched_nms p h boxes scores idxs nms_cfg class_agnostic) = h @ [d]"
      "d ''class_agnostic'' = None" "d ''iou_thr'' = None" "d ''split_thr'' = None"
    using batched_nms_fst [OF assms] by blast
  have "(h @ [d]) ! nms_cfg = h ! nms_cfg" using assms by (simp add: nth_append)
  then show ?thesis using d by simp
qed

theorem batched_nms_keeps_caller_dict_witness:
  "(0 :: nat) < length [[''split_thr'' \<mapsto> VInt 1, ''max_num'' \<mapsto> VInt 1]] \<and>
   fst (batched_nms (jittor_nms 1) [[''split_thr'' \<mapsto> VInt 1, ''max_num'' \<mapsto> VInt 1]]
          \<lparr>ncols = 4, rows = [[0, 0, 2, 2], [5, 5, 6, 6]]\<rparr> [9 / 10, 8 / 10] [0, 1] 0 False) ! 0
     = [[''split_thr'' \<mapsto> VInt 1, ''max_num'' \<mapsto> VInt 1]] ! 0 \<and>
   (\<exists>d. fst (batched_nms (jittor_nms 1) [[''split_thr'' \<mapsto> VInt 1, ''max_num'' \<mapsto> VInt 1]]
          \<lparr>ncols = 4, rows = [[0, 0, 2, 2], [5, 5, 6, 6]]\<rparr> [9 / 10, 8 / 10] [0, 1] 0 False)
        = [[''split_thr'' \<mapsto> VInt 1, ''max_num'' \<mapsto> VInt 1]] @ [d] \<and>
        d ''class_agnostic'' = None \<and> d ''iou_thr'' = None \<and> d ''split_thr'' = None)"
proof -
  have h: "(0 :: nat) < length [[''split_thr'' \<mapsto> VInt 1, ''max_num'' \<mapsto> VInt 1]]" by simp
  show ?thesis
    using h batched_nms_keeps_caller_dict [OF h, of "jittor_nms 1"
        "\<lparr>ncols = 4, rows = [[0, 0, 2, 2], [5, 5, 6, 6]]\<rparr>" "[9 / 10, 8 / 10]" "[0, 1]" False]
    by blast
qed

text \<open>
  The explicit parameter is the default of
  \<^verbatim>\<open>nms_cfg_.pop('class_agnostic', class_agnostic)\<close>: when the dict has the key, the
  explicit parameter has no effect on the result, which is the one of the same call
  without the key and with the stored value as the parameter.
\<close>

lemma class_agnostic_parameter_ignored:
  assumes "nms_cfg < length h" and "(h ! nms_cfg) ''class_agnostic'' = Some v"
  shows "snd (batched_nms p h boxes scores idxs nms_cfg class_agnostic) =
         snd (batched_nms p h boxes scores idxs nms_cfg (\<not> class_agnostic)) \<and>
         snd (batched_nms p h boxes scores idxs nms_cfg class_agnostic) =
         snd (batched_nms p (h[nms_cfg := (h ! nms_cfg)(''class_agnostic'' := None)])
                boxes scores idxs nms_cfg (truthy v))"
proof -
  let ?h = "h[nms_cfg := (h ! nms_cfg)(''class_agnostic'' := None)]"
  have a: "nms_cfg < length ?h" using assms(1) by simp
  have v: "\<And>b. pop_value (h ! nms_cfg) ''class_agnostic'' (VBool b) = v"
    using assms(2) by (simp add: pop_value_def)
  have w: "pop_value (?h ! nms_cfg) ''class_agnostic'' (VBool (truthy v)) = VBool (truthy v)"
    using assms(1) by (simp add: pop_value_def)
  have o: "\<And>k d. k \<noteq> ''class_agnostic'' \<Longrightarrow> pop_value (?h ! nms_cfg) k d = pop_value (h ! nms_cfg) k d"
    using assms(1) by (simp add: pop_value_def)
  show ?thesis
    unfolding batched_nms_snd [OF assms(1)] batched_nms_snd [OF a]
    by (simp add: v w o Let_def)
qed

text \<open>
  Claim C8. The docstring describes the parameter: \<^verbatim>\<open>class_agnostic (bool): if true, nms is
  class agnostic\<close>, and the claim lets it override the config. The code lets the config
  override the parameter. With \<^verbatim>\<open>class_agnostic = False\<close> in the config and the explicit
  parameter \<^verbatim>\<open>True\<close>, two equal boxes of groups 0 and 1 are both kept, where the
  parameter \<^verbatim>\<open>True\<close> alone keeps one; under both area conventions.
\<close>

theorem config_false_defeats_parameter_true:
  "snd (batched_nms (jittor_nms 0) [[''class_agnostic'' \<mapsto> VBool False]]
          \<lparr>ncols = 4, rows = [[0, 0, 2, 2], [0, 0, 2, 2]]\<rparr> [9 / 10, 8 / 10] [0, 1] 0 True)
     = Inr ([[0, 0, 2, 2, 9 / 10], [0, 0, 2, 2, 8 / 10]], [0, 1]) \<and>
   snd (batched_nms (jittor_nms 0) [Map.empty]
          \<lparr>ncols = 4, rows = [[0, 0, 2, 2], [0, 0, 2, 2]]\<rparr> [9 / 10, 8 / 10] [0, 1] 0 True)
     = Inr ([[0, 0, 2, 2, 9 / 10]], [0]) \<and>
   snd (batched_nms (jittor_nms 1) [[''class_agnostic'' \<mapsto> VBool False]]
          \<lparr>ncols = 4, rows = [[0, 0, 2, 2], [0, 0, 2, 2]]\<rparr> [9 / 10, 8 / 10] [0, 1] 0 True)
     = Inr ([[0, 0, 2, 2, 9 / 10], [0, 0, 2, 2, 8 / 10]], [0, 1]) \<and>
   snd (batched_nms (jittor_nms 1) [Map.empty]
          \<lparr>ncols = 4, rows = [[0, 0, 2, 2], [0, 0, 2, 2]]\<rparr> [9 / 10, 8 / 10] [0, 1] 0 True)
     = Inr ([[0, 0, 2, 2, 9 / 10]], [0])"
  by code_simp

text \<open>
  The other way round, \<^verbatim>\<open>class_agnostic = True\<close> in the config defeats the parameter
  \<^verbatim>\<open>False\<close>: the two boxes are suppressed against each other.
\<close>

lemma config_true_defeats_parameter_false:
  "snd (batched_nms (jittor_nms 0) [[''class_agnostic'' \<mapsto> VBool True]]
          \<lparr>ncols = 4, rows = [[0, 0, 2, 2], [0, 0, 2, 2]]\<rparr> [9 / 10, 8 / 10] [0, 1] 0 False)
     = Inr ([[0, 0, 2, 2, 9 / 10]], [0]) \<and>
   snd (batched_nms (jittor_nms 0) [Map.empty]
          \<lparr>ncols = 4, rows = [[0, 0, 2, 2], [0, 0, 2, 2]]\<rparr> [9 / 10, 8 / 10] [0, 1] 0 False)
     = Inr ([[0, 0, 2, 2, 9 / 10], [0, 0, 2, 2, 8 / 10]], [0, 1]) \<and>
   snd (batched_nms (jittor_nms 1) [[''class_agnostic'' \<mapsto> VBool True]]
          \<lparr>ncols = 4, rows = [[0, 0, 2, 2], [0, 0, 2, 2]]\<rparr> [9 / 10, 8 / 10] [0, 1] 0 False)
     = Inr ([[0, 0, 2, 2, 9 / 10]], [0]) \<and>
   snd (batched_nms (jittor_nms 1) [Map.empty]
          \<lparr>ncols = 4, rows = [[0, 0, 2, 2], [0, 0, 2, 2]]\<rparr> [9 / 10, 8 / 10] [0, 1] 0 False)
     = Inr ([[0, 0, 2, 2, 9 / 10], [0, 0, 2, 2, 8 / 10]], [0, 1])"
  by code_simp

section \<open>The large-input path\<close>

subsection \<open>The accumulators of the large-input path\<close>

lemma length_scatter: "length (scatter xs inds vs) = length xs"
proof -
  have "length (fold (\<lambda>(i, v) acc. acc[i := v]) ps xs) = length xs" for ps :: "(nat \<times> 'a) list"
    by (induction ps arbitrary: xs) (auto split: prod.splits)
  then show ?thesis by (simp add: scatter_def)
qed

lemma scatter_ones:
  "j < length xs \<Longrightarrow>
   (scatter xs inds (replicate (length inds) 1) ! j \<noteq> (0 :: real)) = (j \<in> set inds \<or> xs ! j \<noteq> 0)"
proof (induction inds arbitrary: xs)
  case Nil
  then show ?case by (simp add: scatter_def)
next
  case (Cons i inds)
  have step: "scatter xs (i # inds) (replicate (length (i # inds)) 1) =
      scatter (xs[i := 1]) inds (replicate (length inds) 1)"
    by (simp add: scatter_def)
  have "j < length (xs[i := 1])" using Cons.prems by simp
  then have "(scatter (xs[i := 1]) inds (replicate (length inds) 1) ! j \<noteq> 0) =
      (j \<in> set inds \<or> xs[i := 1] ! j \<noteq> 0)"
    by (rule Cons.IH)
  moreover have "(xs[i := 1] ! j \<noteq> 0) = (j = i \<or> xs ! j \<noteq> 0)"
    using Cons.prems by (cases "j = i") simp_all
  ultimately show ?case unfolding step by auto
qed

lemma group_loop_total:
  assumes "ncols bfn = 4"
  shows "\<exists>tm sa. group_loop p bfn scores idxs iou gids (tm0, sa0) = Inr (tm, sa) \<and>
           length tm = length tm0 \<and>
           (\<forall>j<length tm0. (tm ! j \<noteq> 0) =
              (tm0 ! j \<noteq> 0 \<or> (\<exists>g\<in>set gids. j \<in> set (group_kept p bfn scores idxs iou g))))"
proof (induction gids arbitrary: tm0 sa0)
  case Nil
  then show ?case by simp
next
  case (Cons g gids)
  let ?m = "group_mask idxs g"
  let ?sub = "bfn\<lparr>rows := gather (rows bfn) ?m\<rparr>"
  let ?keep = "execute p (gather (rows bfn) ?m) (gather scores ?m) (to_float iou) 0 0 (- 1)"
  let ?dets = "concat_cols (gather (rows ?sub) ?keep) (gather (gather scores ?m) ?keep)"
  let ?tm1 = "scatter tm0 (gather ?m ?keep) (replicate (length ?keep) 1)"
  let ?sa1 = "scatter sa0 (gather ?m ?keep) (map last ?dets)"
  have nms: "nms p ?sub (gather scores ?m) (to_float iou) 0 0 (- 1) = Inr (?dets, ?keep)"
    using assms by (simp add: nms_def gather_def Let_def)
  have step: "group_loop p bfn scores idxs iou (g # gids) (tm0, sa0) =
      group_loop p bfn scores idxs iou gids (?tm1, ?sa1)"
    by (simp add: nms Let_def)
  obtain tm sa where res: "group_loop p bfn scores idxs iou gids (?tm1, ?sa1) = Inr (tm, sa)"
    and len: "length tm = length ?tm1"
    and nz: "\<forall>j<length ?tm1. (tm ! j \<noteq> 0) =
              (?tm1 ! j \<noteq> 0 \<or> (\<exists>g\<in>set gids. j \<in> set (group_kept p bfn scores idxs iou g)))"
    using Cons.IH [of ?tm1 ?sa1] by blast
  have l1: "length ?tm1 = length tm0" by (rule length_scatter)
  have first: "\<forall>j<length tm0. (?tm1 ! j \<noteq> 0) =
      (j \<in> set (group_kept p bfn scores idxs iou g) \<or> tm0 ! j \<noteq> 0)"
    using scatter_ones [of _ tm0 "gather ?m ?keep"]
    by (simp add: group_kept_def gather_def)
  have "\<forall>j<length tm0. (tm ! j \<noteq> 0) =
      (tm0 ! j \<noteq> 0 \<or> (\<exists>g'\<in>set (g # gids). j \<in> set (group_kept p bfn scores idxs iou g')))"
    using nz first l1 by auto
  then show ?case using res len l1 step by simp
qed

lemma set_gather_perm: "set inds = {0..<length xs} \<Longrightarrow> set (gather xs inds) = set xs"
proof -
  assume "set inds = {0..<length xs}"
  then have "set (gather xs inds) = nth xs ` {0..<length xs}" by (simp add: gather_def)
  also have "\<dots> = set xs" by (auto simp: set_conv_nth [of xs])
  finally show ?thesis .
qed

lemma distinct_gather:
  assumes "distinct xs" "distinct inds" "\<forall>i\<in>set inds. i < length xs"
  shows "distinct (gather xs inds)"
proof -
  have "inj_on (nth xs) (set inds)"
    using assms(1,3) by (auto simp: inj_on_def nth_eq_iff_index_eq)
  then show ?thesis using assms(2) by (simp add: gather_def distinct_map)
qed

lemma large_path_keep:
  assumes four: "ncols bfn = 4" and idx: "as_index mn = Inr n"
  shows "\<exists>dets keep. large_path p boxes bfn scores idxs iou mn = Inr (dets, keep) \<and>
           distinct keep \<and>
           set keep \<subseteq> {j. j < length scores \<and>
              (\<exists>g\<in>set (unique idxs). j \<in> set (group_kept p bfn scores idxs iou g))} \<and>
           (\<not> 0 < to_float mn \<longrightarrow>
              set keep = {j. j < length scores \<and>
                (\<exists>g\<in>set (unique idxs). j \<in> set (group_kept p bfn scores idxs iou g))})"
proof -
  let ?K = "{j. j < length scores \<and>
              (\<exists>g\<in>set (unique idxs). j \<in> set (group_kept p bfn scores idxs iou g))}"
  let ?z = "replicate (length scores) (0 :: real)"
  obtain tm sa where loop: "group_loop p bfn scores idxs iou (unique idxs) (?z, ?z) = Inr (tm, sa)"
    and len: "length tm = length ?z"
    and nz: "\<forall>j<length ?z. (tm ! j \<noteq> 0) =
               (?z ! j \<noteq> 0 \<or> (\<exists>g\<in>set (unique idxs). j \<in> set (group_kept p bfn scores idxs iou g)))"
    using group_loop_total [OF four, of p scores idxs iou "unique idxs" ?z ?z] by blast
  let ?marked = "filter (\<lambda>i. tm ! i \<noteq> 0) [0..<length tm]"
  let ?inds = "argsort_desc (gather sa ?marked)"
  let ?keep = "gather ?marked ?inds"
  have k0: "set ?marked = ?K" using len nz by auto
  have d0: "distinct ?marked" by simp
  have li: "length (gather sa ?marked) = length ?marked" by (simp add: gather_def)
  have si: "set ?inds = {0..<length ?marked}" using set_argsort_desc [of "gather sa ?marked"] li by simp
  have di: "distinct ?inds" by (rule distinct_argsort_desc)
  have "set ?keep = set ?marked" using si by (rule set_gather_perm)
  then have sk: "set ?keep = ?K" using k0 by (rule trans)
  have dk: "distinct ?keep" using d0 di si by (intro distinct_gather) auto
  have res: "large_path p boxes bfn scores idxs iou mn =
      (if 0 < to_float mn then
         Inr (concat_cols (take (nat n) (gather (rows boxes) ?keep))
                (take (nat n) (gather (gather sa ?marked) ?inds)), take (nat n) ?keep)
       else Inr (concat_cols (gather (rows boxes) ?keep) (gather (gather sa ?marked) ?inds), ?keep))"
    by (simp add: large_path_def loop idx Let_def)
  show ?thesis
  proof (cases "0 < to_float mn")
    case True
    have "set (take (nat n) ?keep) \<subseteq> ?K" using sk set_take_subset [of "nat n" ?keep] by blast
    moreover have "distinct (take (nat n) ?keep)" using dk by simp
    ultimately show ?thesis using True res by simp
  next
    case False
    then show ?thesis using res sk dk by simp
  qed
qed

lemma maxl_ge: "x \<in> set xs \<Longrightarrow> x \<le> maxl xs"
  by (induction xs rule: maxl.induct) auto

lemma rows_add_offsets:
  "rows (add_offsets boxes idxs) =
     map2 (\<lambda>r g. map (\<lambda>x. x + real_of_int g * (max_coordinate boxes + 1)) r) (rows boxes) idxs"
  by (simp add: add_offsets_def Let_def zip_map2 case_prod_unfold)

lemma ncols_add_offsets: "ncols (add_offsets boxes idxs) = ncols boxes"
  by (simp add: add_offsets_def Let_def)

lemma add_offsets_valid:
  assumes "valid_batched_input boxes scores idxs cfg"
  shows "valid_nms_input (add_offsets boxes idxs) scores 0"
proof -
  have "\<forall>r\<in>set (rows boxes). length r = 4"
    using assms by (simp add: valid_batched_input_def wf_var2_def list_all_iff)
  then have "\<forall>r\<in>set (rows (add_offsets boxes idxs)). length r = 4"
    by (auto simp: rows_add_offsets dest: set_zip_leftD)
  moreover have "length (rows (add_offsets boxes idxs)) = length scores"
    using assms by (simp add: rows_add_offsets valid_batched_input_def)
  ultimately show ?thesis
    using assms
    by (simp add: valid_nms_input_def valid_batched_input_def wf_var2_def list_all_iff ncols_add_offsets)
qed

lemma batched_valid_plain:
  "valid_batched_input boxes scores idxs cfg \<Longrightarrow> valid_nms_input boxes scores 0"
  by (simp add: valid_nms_input_def valid_batched_input_def)

lemma small_path_valid:
  assumes "valid_nms_input bfn scores 0" and "length (rows boxes) = length scores"
  shows "small_path p boxes bfn scores iou =
     Inr (concat_cols (gather (rows boxes) (execute p (rows bfn) scores (to_float iou) 0 0 (- 1)))
            (map (\<lambda>d. d ! 4)
               (concat_cols (gather (rows bfn) (execute p (rows bfn) scores (to_float iou) 0 0 (- 1)))
                  (gather scores (execute p (rows bfn) scores (to_float iou) 0 0 (- 1))))),
          execute p (rows bfn) scores (to_float iou) 0 0 (- 1))"
  by (simp add: small_path_def nms_valid [OF assms(1)])

lemma valid_max_num_index:
  assumes "valid_batched_input boxes scores idxs cfg"
  shows "\<exists>n. as_index (pop_value cfg ''max_num'' (VInt (- 1))) = Inr n"
proof (cases "cfg ''max_num''")
  case None
  then show ?thesis by (simp add: pop_value_def)
next
  case (Some v)
  then show ?thesis
    using assms by (cases v) (simp_all add: pop_value_def valid_batched_input_def)
qed

text \<open>
  Claim C9. For every valid input of N boxes, \<^verbatim>\<open>nms\<close> and \<^verbatim>\<open>batched_nms\<close> return, and the
  indices they return are pairwise distinct and below N.
\<close>

theorem returned_indices_unique_in_range:
  assumes "valid_nms_input boxes scores offset"
    and "valid_batched_input bboxes bscores idxs (h ! nms_cfg)" and "nms_cfg < length h"
  shows "(\<exists>dets inds.
            nms (jittor_nms c) boxes scores iou_threshold offset score_threshold max_num = Inr (dets, inds) \<and>
            distinct inds \<and> (\<forall>i\<in>set inds. i < length scores)) \<and>
         (\<exists>dets keep.
            snd (batched_nms (jittor_nms c) h bboxes bscores idxs nms_cfg class_agnostic) = Inr (dets, keep) \<and>
            distinct keep \<and> (\<forall>i\<in>set keep. i < length bscores))"
proof
  have len: "length (rows boxes) = length scores" using assms(1) by (simp add: valid_nms_input_def)
  have four: "\<forall>b\<in>set (rows boxes). length b = 4" using assms(1) by (rule valid_rows_four)
  show "\<exists>dets inds.
          nms (jittor_nms c) boxes scores iou_threshold offset score_threshold max_num = Inr (dets, inds) \<and>
          distinct inds \<and> (\<forall>i\<in>set inds. i < length scores)"
    using nms_valid [OF assms(1), of "jittor_nms c" iou_threshold score_threshold max_num]
      execute_props(1,2) [OF len four, of c iou_threshold offset score_threshold max_num]
    by simp
next
  let ?cfg = "h ! nms_cfg"
  let ?bfn = "if truthy (pop_value ?cfg ''class_agnostic'' (VBool class_agnostic)) then bboxes
              else add_offsets bboxes idxs"
  let ?iou = "pop_value ?cfg ''iou_thr'' (VInt 0)"
  let ?mn = "pop_value ?cfg ''max_num'' (VInt (- 1))"
  have vb: "valid_nms_input ?bfn bscores 0"
    using add_offsets_valid [OF assms(2)] batched_valid_plain [OF assms(2)] by simp
  have blen: "length (rows bboxes) = length bscores"
    using assms(2) by (simp add: valid_batched_input_def)
  show "\<exists>dets keep.
          snd (batched_nms (jittor_nms c) h bboxes bscores idxs nms_cfg class_agnostic) = Inr (dets, keep) \<and>
          distinct keep \<and> (\<forall>i\<in>set keep. i < length bscores)"
  proof (cases "real (length (rows ?bfn)) < to_float (pop_value ?cfg ''split_thr'' (VInt 10000))")
    case True
    have res: "snd (batched_nms (jittor_nms c) h bboxes bscores idxs nms_cfg class_agnostic) =
        small_path (jittor_nms c) bboxes ?bfn bscores ?iou"
      using True by (simp add: batched_nms_snd [OF assms(3)] Let_def)
    have l: "length (rows ?bfn) = length bscores" using vb by (simp add: valid_nms_input_def)
    have f: "\<forall>b\<in>set (rows ?bfn). length b = 4" using vb by (rule valid_rows_four)
    show ?thesis
      unfolding res small_path_valid [OF vb blen]
      using execute_props(1,2) [OF l f, of c "to_float ?iou" 0 0 "- 1"] by simp
  next
    case False
    have res: "snd (batched_nms (jittor_nms c) h bboxes bscores idxs nms_cfg class_agnostic) =
        large_path (jittor_nms c) bboxes ?bfn bscores idxs ?iou ?mn"
      using False by (simp add: batched_nms_snd [OF assms(3)] Let_def)
    have four: "ncols ?bfn = 4" using vb by (simp add: valid_nms_input_def)
    obtain n where n: "as_index ?mn = Inr n" using valid_max_num_index [OF assms(2)] by blast
    show ?thesis
      unfolding res using large_path_keep [OF four n, of "jittor_nms c" bboxes bscores idxs ?iou]
      by blast
  qed
qed

theorem returned_indices_unique_in_range_witness:
  "valid_nms_input \<lparr>ncols = 4, rows = [[0, 0, 2, 2], [0, 0, 2, 2], [5, 5, 6, 6]]\<rparr>
     [5 / 10, 9 / 10, 7 / 10] 0 \<and>
   valid_batched_input \<lparr>ncols = 4, rows = [[0, 0, 2, 2], [0, 0, 2, 2], [1, 1, 3, 3]]\<rparr>
     [9 / 10, 8 / 10, 7 / 10] [0, 1, 0] ([[''split_thr'' \<mapsto> VInt 2, ''max_num'' \<mapsto> VInt 2]] ! 0) \<and>
   (0 :: nat) < length [[''split_thr'' \<mapsto> VInt 2, ''max_num'' \<mapsto> VInt 2]] \<and>
   (\<exists>dets inds.
      nms (jittor_nms 1) \<lparr>ncols = 4, rows = [[0, 0, 2, 2], [0, 0, 2, 2], [5, 5, 6, 6]]\<rparr>
        [5 / 10, 9 / 10, 7 / 10] (1 / 2) 0 0 (- 1) = Inr (dets, inds) \<and>
      distinct inds \<and> (\<forall>i\<in>set inds. i < length [5 / 10, 9 / 10, 7 / 10 :: real])) \<and>
   (\<exists>dets keep.
      snd (batched_nms (jittor_nms 1) [[''split_thr'' \<mapsto> VInt 2, ''max_num'' \<mapsto> VInt 2]]
             \<lparr>ncols = 4, rows = [[0, 0, 2, 2], [0, 0, 2, 2], [1, 1, 3, 3]]\<rparr>
             [9 / 10, 8 / 10, 7 / 10] [0, 1, 0] 0 False) = Inr (dets, keep) \<and>
      distinct keep \<and> (\<forall>i\<in>set keep. i < length [9 / 10, 8 / 10, 7 / 10 :: real]))"
proof -
  have v: "valid_nms_input \<lparr>ncols = 4, rows = [[0, 0, 2, 2], [0, 0, 2, 2], [5, 5, 6, 6]]\<rparr>
      [5 / 10, 9 / 10, 7 / 10] 0"
    by (simp add: valid_nms_input_def wf_var2_def)
  have b: "valid_batched_input \<lparr>ncols = 4, rows = [[0, 0, 2, 2], [0, 0, 2, 2], [1, 1, 3, 3]]\<rparr>
      [9 / 10, 8 / 10, 7 / 10] [0, 1, 0] ([[''split_thr'' \<mapsto> VInt 2, ''max_num'' \<mapsto> VInt 2]] ! 0)"
    by (simp add: valid_batched_input_def wf_var2_def)
  have a: "(0 :: nat) < length [[''split_thr'' \<mapsto> VInt 2, ''max_num'' \<mapsto> VInt 2]]" by simp
  show ?thesis
    using v b a returned_indices_unique_in_range [OF v b a, of 1 "1 / 2" 0 "- 1" False] by blast
qed

section \<open>Groups\<close>

subsection \<open>Stable sorting and group masks\<close>

lemma insort_key_cong_set:
  "f x = g x \<Longrightarrow> (\<And>y. y \<in> set xs \<Longrightarrow> f y = g y) \<Longrightarrow> insort_key f x xs = insort_key g x xs"
  by (induction xs) auto

lemma sort_key_cong_set:
  "(\<And>y. y \<in> set xs \<Longrightarrow> f y = g y) \<Longrightarrow> sort_key f xs = sort_key g xs"
proof (induction xs)
  case Nil
  then show ?case by simp
next
  case (Cons x xs)
  have "sort_key f xs = sort_key g xs" using Cons by simp
  moreover have "insort_key f x (sort_key g xs) = insort_key g x (sort_key g xs)"
    using Cons.prems by (intro insort_key_cong_set) simp_all
  ultimately show ?case by simp
qed

lemma map_insort_key:
  "map g (insort_key (\<lambda>x. f (g x)) x xs) = insort_key f (g x) (map g xs)"
  by (induction xs) simp_all

lemma map_sort_key:
  "map g (sort_key (\<lambda>x. f (g x)) xs) = sort_key f (map g xs)"
  by (induction xs) (simp_all add: map_insort_key)

lemma argsort_desc_filter:
  assumes "m = filter P [0..<length ss]"
  shows "gather m (argsort_desc (gather ss m)) = filter P (argsort_desc ss)"
proof -
  have "argsort_desc (gather ss m) = sort_key (\<lambda>k. - (ss ! (m ! k))) [0..<length m]"
    unfolding argsort_desc_def by (rule sort_key_cong_set [THEN trans]) (simp_all add: gather_def)
  then have "gather m (argsort_desc (gather ss m)) = sort_key (\<lambda>i. - (ss ! i)) (map (nth m) [0..<length m])"
    using map_sort_key [of "nth m" "\<lambda>i. - (ss ! i)" "[0..<length m]"] by (simp add: gather_def)
  also have "\<dots> = sort_key (\<lambda>i. - (ss ! i)) m" by (simp add: map_nth)
  also have "\<dots> = filter P (argsort_desc ss)" by (simp add: assms argsort_desc_def filter_sort)
  finally show ?thesis .
qed

text \<open>
  With pairwise distinct scores there is one descending order only, so the order among
  equal scores, which the library decides, plays no part there.
\<close>

lemma argsort_desc_unique:
  assumes ds: "distinct ss" and dx: "distinct xs" and sx: "set xs = {0..<length ss}"
    and sorted: "sorted_wrt (\<lambda>i j. ss ! j \<le> ss ! i) xs"
  shows "xs = argsort_desc ss"
proof -
  let ?f = "\<lambda>i. - (ss ! i)"
  let ?ys = "argsort_desc ss"
  have inj: "inj_on ?f {0..<length ss}"
    using ds by (auto simp: inj_on_def nth_eq_iff_index_eq)
  have sy: "set ?ys = {0..<length ss}" by (rule set_argsort_desc)
  have "sorted (map ?f xs)" using sorted by (simp add: sorted_map)
  moreover have "distinct (map ?f xs)" using dx inj sx by (simp add: distinct_map)
  moreover have "sorted (map ?f ?ys)" unfolding argsort_desc_def by (rule sorted_sort_key)
  moreover have "distinct (map ?f ?ys)"
    using distinct_argsort_desc [of ss] inj sy by (simp add: distinct_map)
  moreover have "set (map ?f xs) = set (map ?f ?ys)" using sx sy by simp
  ultimately have "map ?f xs = map ?f ?ys" by (rule sorted_distinct_set_unique)
  moreover have "inj_on ?f (set xs \<union> set ?ys)" using inj sx sy by simp
  ultimately show ?thesis by (simp add: inj_on_map_eq_map)
qed

subsection \<open>Greedy suppression under renaming and under a group filter\<close>

lemma suppress_map:
  assumes "\<forall>x\<in>set xs. \<forall>y\<in>set xs. ov' x y = ov (f x) (f y)"
  shows "map f (suppress ov' xs) = suppress ov (map f xs)"
  using assms
proof (induction ov' xs rule: suppress.induct)
  case (1 ov')
  then show ?case by simp
next
  case (2 ov' p rest)
  let ?rest = "filter (\<lambda>q. \<not> ov' p q) rest"
  have ih: "map f (suppress ov' ?rest) = suppress ov (map f ?rest)"
    using 2 by simp
  have "filter (\<lambda>q. \<not> ov (f p) (f q)) rest = ?rest"
    using 2(2) by (intro filter_cong) simp_all
  then have "filter (\<lambda>q. \<not> ov (f p) q) (map f rest) = map f ?rest"
    by (simp add: filter_map comp_def)
  then show ?case using ih by simp
qed

lemma suppress_filter:
  assumes "\<forall>x\<in>set xs. \<forall>y\<in>set xs. P y \<and> \<not> P x \<longrightarrow> \<not> ov x y"
  shows "filter P (suppress ov xs) = suppress ov (filter P xs)"
  using assms
proof (induction ov xs rule: suppress.induct)
  case (1 ov)
  then show ?case by simp
next
  case (2 ov p rest)
  let ?rest = "filter (\<lambda>q. \<not> ov p q) rest"
  have ih: "filter P (suppress ov ?rest) = suppress ov (filter P ?rest)"
    using 2 by simp
  show ?case
  proof (cases "P p")
    case True
    have "filter P ?rest = filter (\<lambda>q. \<not> ov p q) (filter P rest)"
      by (auto intro: filter_cong)
    then show ?thesis using True ih by simp
  next
    case False
    have "filter P ?rest = filter P rest"
      using 2(2) False by (auto intro: filter_cong)
    then show ?thesis using False ih by simp
  qed
qed

subsection \<open>Offsets separate the groups of non-negative boxes\<close>

lemma maxl_nonneg: "\<forall>x\<in>set xs. 0 \<le> x \<Longrightarrow> 0 \<le> maxl xs"
  by (induction xs rule: maxl.induct) auto

lemma group_gap:
  fixes ga gb :: int and M :: real
  assumes "ga < gb" "0 \<le> M"
  shows "real_of_int ga * M + M \<le> real_of_int gb * M"
proof -
  have "real_of_int ga + 1 \<le> real_of_int gb" using assms(1) by linarith
  then have "(real_of_int ga + 1) * M \<le> real_of_int gb * M"
    using assms(2) by (rule mult_right_mono)
  then show ?thesis by (simp add: algebra_simps)
qed

lemma inter_width_zero:
  fixes ga gb :: int and M :: real
  assumes ne: "ga \<noteq> gb" and M: "0 \<le> M" and c: "c \<le> 1"
    and a0: "real_of_int ga * M \<le> a0" and a2: "a2 \<le> real_of_int ga * M + (M - 1)"
    and b0: "real_of_int gb * M \<le> b0" and b2: "b2 \<le> real_of_int gb * M + (M - 1)"
  shows "max 0 (min a2 b2 - max a0 b0 + c) = 0"
proof (cases "ga < gb")
  case True
  from group_gap [OF True M] a2 b0 c show ?thesis by simp
next
  case False
  then have "gb < ga" using ne by simp
  from group_gap [OF this M] a0 b2 c show ?thesis by simp
qed

lemma iou_exceeds_disjoint:
  assumes "max 0 (min (a ! 2) (b ! 2) - max (a ! 0) (b ! 0) + c) = 0" and "0 \<le> thr"
  shows "\<not> iou_exceeds c thr a b"
  using assms by (simp add: iou_exceeds_def box_inter_def Let_def)

lemma concat_cols_nth:
  "i < length bs \<Longrightarrow> i < length ss \<Longrightarrow> concat_cols bs ss ! i = bs ! i @ [ss ! i]"
  by (simp add: concat_cols_def)

lemma concat_cols_gather:
  assumes "\<forall>i\<in>set m. i < length bs \<and> i < length ss"
  shows "concat_cols (gather bs m) (gather ss m) = gather (concat_cols bs ss) m"
proof (rule nth_equalityI)
  show "length (concat_cols (gather bs m) (gather ss m)) = length (gather (concat_cols bs ss) m)"
    by (simp add: length_concat_cols gather_def)
next
  fix i assume "i < length (concat_cols (gather bs m) (gather ss m))"
  then have i: "i < length m" by (simp add: length_concat_cols gather_def)
  then have "m ! i < length bs" "m ! i < length ss" using assms by simp_all
  then show "concat_cols (gather bs m) (gather ss m) ! i = gather (concat_cols bs ss) m ! i"
    using i by (simp add: concat_cols_nth gather_def)
qed

lemma concat_cols_scores:
  assumes "length bs = length ss" "\<forall>b\<in>set bs. length b = 4"
  shows "map (\<lambda>d. d ! 4) (concat_cols bs ss) = ss"
proof (rule nth_equalityI)
  show "length (map (\<lambda>d. d ! 4) (concat_cols bs ss)) = length ss"
    using assms(1) by (simp add: length_concat_cols)
next
  fix i assume "i < length (map (\<lambda>d. d ! 4) (concat_cols bs ss))"
  then have "i < length ss" using assms(1) by (simp add: length_concat_cols)
  then show "map (\<lambda>d. d ! 4) (concat_cols bs ss) ! i = ss ! i"
    using concat_cols_score [OF assms] assms(1) by (simp add: length_concat_cols)
qed

lemma shifted_coordinate_bounds:
  assumes valid: "valid_batched_input boxes scores idxs cfg"
    and nonneg: "\<forall>r\<in>set (rows boxes). \<forall>x\<in>set r. 0 \<le> x"
    and i: "i < length scores" and k: "k < 4"
  shows "real_of_int (idxs ! i) * (max_coordinate boxes + 1)
           \<le> concat_cols (rows (add_offsets boxes idxs)) scores ! i ! k"
    and "concat_cols (rows (add_offsets boxes idxs)) scores ! i ! k
           \<le> real_of_int (idxs ! i) * (max_coordinate boxes + 1) + (max_coordinate boxes + 1 - 1)"
proof -
  let ?M = "max_coordinate boxes + 1"
  have lens: "length (rows boxes) = length scores" "length idxs = length scores"
    using valid by (simp_all add: valid_batched_input_def)
  have row: "rows boxes ! i \<in> set (rows boxes)" using i lens by simp
  then have l4: "length (rows boxes ! i) = 4"
    using valid by (simp add: valid_batched_input_def wf_var2_def list_all_iff)
  then have mem: "rows boxes ! i ! k \<in> set (rows boxes ! i)" using k by simp
  then have lo: "0 \<le> rows boxes ! i ! k" using nonneg row by blast
  have "rows boxes ! i ! k \<in> set (concat (rows boxes))" using mem row by auto
  then have hi: "rows boxes ! i ! k \<le> max_coordinate boxes"
    unfolding max_coordinate_def by (rule maxl_ge)
  have "concat_cols (rows (add_offsets boxes idxs)) scores ! i ! k =
      rows boxes ! i ! k + real_of_int (idxs ! i) * ?M"
    using i k lens l4 by (simp add: concat_cols_nth rows_add_offsets nth_append)
  then show "real_of_int (idxs ! i) * ?M \<le> concat_cols (rows (add_offsets boxes idxs)) scores ! i ! k"
    and "concat_cols (rows (add_offsets boxes idxs)) scores ! i ! k
           \<le> real_of_int (idxs ! i) * ?M + (?M - 1)"
    using lo hi by simp_all
qed

lemma cross_group_no_suppression:
  assumes valid: "valid_batched_input boxes scores idxs cfg"
    and nonneg: "\<forall>r\<in>set (rows boxes). \<forall>x\<in>set r. 0 \<le> x"
    and c: "c \<le> 1" and thr: "0 \<le> thr"
    and i: "i < length scores" and j: "j < length scores" and ne: "idxs ! i \<noteq> idxs ! j"
  shows "\<not> iou_exceeds c thr (concat_cols (rows (add_offsets boxes idxs)) scores ! i)
            (concat_cols (rows (add_offsets boxes idxs)) scores ! j)"
proof -
  have "\<forall>x\<in>set (concat (rows boxes)). 0 \<le> x" using nonneg by auto
  then have M: "0 \<le> max_coordinate boxes + 1"
    unfolding max_coordinate_def using maxl_nonneg [of "concat (rows boxes)"] by simp
  show ?thesis
    by (rule iou_exceeds_disjoint [OF inter_width_zero [OF ne M c] thr])
       (rule shifted_coordinate_bounds [OF valid nonneg] i j | simp)+
qed

text \<open>
  Adding one offset to all coordinates of two boxes changes no overlap decision between
  them: within a group the geometry is that of the original boxes.
\<close>

lemma iou_exceeds_shift:
  assumes "4 \<le> length a" "4 \<le> length b"
  shows "iou_exceeds c thr (map (\<lambda>x. x + d) a) (map (\<lambda>x. x + d) b) = iou_exceeds c thr a b"
proof -
  have m: "\<And>x y. min (x + d) (y + d) = min x y + d" "\<And>x y. max (x + d) (y + d) = max x y + d"
    by (simp_all add: min_def max_def)
  have z: "map (\<lambda>x. x + d) a ! 0 = a ! 0 + d" "map (\<lambda>x. x + d) b ! 0 = b ! 0 + d"
  proof -
    have "a \<noteq> []" "b \<noteq> []" using assms by auto
    then show "map (\<lambda>x. x + d) a ! 0 = a ! 0 + d" "map (\<lambda>x. x + d) b ! 0 = b ! 0 + d"
      by simp_all
  qed
  have "box_inter c (map (\<lambda>x. x + d) a) (map (\<lambda>x. x + d) b) = box_inter c a b"
    using assms by (simp add: box_inter_def m z)
  moreover have "box_area c (map (\<lambda>x. x + d) a) = box_area c a"
    "box_area c (map (\<lambda>x. x + d) b) = box_area c b"
    using assms by (simp_all add: box_area_def z)
  ultimately show ?thesis by (simp add: iou_exceeds_def)
qed

subsection \<open>Per-group suppression against one suppression over the offset boxes\<close>

lemma group_mask_in_range: "i \<in> set (group_mask idxs g) \<Longrightarrow> i < length idxs \<and> idxs ! i = g"
  by (simp add: group_mask_def)

lemma group_kept_filter:
  assumes valid: "valid_batched_input boxes scores idxs cfg"
    and nonneg: "\<forall>r\<in>set (rows boxes). \<forall>x\<in>set r. 0 \<le> x"
    and c: "c \<le> 1" and thr: "0 \<le> to_float iou"
  shows "group_kept (jittor_nms c) (add_offsets boxes idxs) scores idxs iou g =
         filter (\<lambda>i. idxs ! i = g)
           (execute (jittor_nms c) (rows (add_offsets boxes idxs)) scores (to_float iou) 0 0 (- 1))"
proof -
  let ?bs = "rows (add_offsets boxes idxs)"
  let ?t = "to_float iou"
  let ?m = "group_mask idxs g"
  let ?dets = "concat_cols ?bs scores"
  let ?ov = "\<lambda>i j. iou_exceeds c ?t (?dets ! i) (?dets ! j)"
  let ?sub = "gather ?dets ?m"
  let ?ovm = "\<lambda>i j. iou_exceeds c ?t (?sub ! i) (?sub ! j)"
  let ?P = "\<lambda>i. idxs ! i = g"
  have vn: "valid_nms_input (add_offsets boxes idxs) scores 0" using valid by (rule add_offsets_valid)
  have len: "length ?bs = length scores" using vn by (simp add: valid_nms_input_def)
  have four: "\<forall>b\<in>set ?bs. length b = 4" using vn by (rule valid_rows_four)
  have li: "length idxs = length scores" using valid by (simp add: valid_batched_input_def)
  have m: "?m = filter ?P [0..<length scores]" by (simp add: group_mask_def li)
  have mr: "\<forall>i\<in>set ?m. i < length ?bs \<and> i < length scores"
    using group_mask_in_range [of _ idxs g] len li by auto
  have col: "map (\<lambda>d. d ! 4) ?dets = scores" using len four by (rule concat_cols_scores)
  have subcol: "map (\<lambda>d. d ! 4) ?sub = gather scores ?m"
  proof -
    have "map (\<lambda>d. d ! 4) ?sub = gather (map (\<lambda>d. d ! 4) ?dets) ?m"
      using mr len by (simp add: gather_def length_concat_cols)
    then show ?thesis by (simp add: col)
  qed
  have whole: "execute (jittor_nms c) ?bs scores ?t 0 0 (- 1) = suppress ?ov (argsort_desc scores)"
    by (simp add: execute_unfiltered jittor_nms_def col)
  have "execute (jittor_nms c) (gather ?bs ?m) (gather scores ?m) ?t 0 0 (- 1) =
      suppress ?ovm (argsort_desc (gather scores ?m))"
    by (simp add: execute_unfiltered jittor_nms_def concat_cols_gather [OF mr] subcol)
  then have "group_kept (jittor_nms c) (add_offsets boxes idxs) scores idxs iou g =
      gather ?m (suppress ?ovm (argsort_desc (gather scores ?m)))"
    by (simp add: group_kept_def)
  also have "\<dots> = suppress ?ov (gather ?m (argsort_desc (gather scores ?m)))"
  proof -
    have "\<forall>x\<in>set (argsort_desc (gather scores ?m)). \<forall>y\<in>set (argsort_desc (gather scores ?m)).
            ?ovm x y = ?ov (?m ! x) (?m ! y)"
      by (simp add: set_argsort_desc gather_def)
    then show ?thesis unfolding gather_def [of ?m] by (rule suppress_map)
  qed
  also have "\<dots> = suppress ?ov (filter ?P (argsort_desc scores))"
    by (simp add: argsort_desc_filter [OF m])
  also have "\<dots> = filter ?P (suppress ?ov (argsort_desc scores))"
  proof (rule suppress_filter [symmetric], intro ballI impI)
    fix x y assume "x \<in> set (argsort_desc scores)" "y \<in> set (argsort_desc scores)"
      and "idxs ! y = g \<and> idxs ! x \<noteq> g"
    then have "x < length scores" "y < length scores" "idxs ! x \<noteq> idxs ! y"
      by (simp_all add: set_argsort_desc)
    then show "\<not> ?ov x y"
      by (rule cross_group_no_suppression [OF valid nonneg c thr])
  qed
  finally show ?thesis by (simp add: whole)
qed

lemma set_unique: "set (unique idxs) = set idxs"
  by (simp add: unique_def)

lemma union_of_groups:
  assumes "\<forall>i\<in>set ks. i < length idxs"
  shows "{j. j < length idxs \<and> (\<exists>g\<in>set (unique idxs). j \<in> set (filter (\<lambda>i. idxs ! i = g) ks))} = set ks"
  using assms by (auto simp: set_unique)

lemma pop_value_upd_same: "pop_value (cfg(k \<mapsto> v)) k dflt = v"
  by (simp add: pop_value_def)

lemma pop_value_upd_other: "k' \<noteq> k \<Longrightarrow> pop_value (cfg(k \<mapsto> v)) k' dflt = pop_value cfg k' dflt"
  by (simp add: pop_value_def)

text \<open>
  Where the two paths agree, in this model (exact arithmetic, and the stable order of
  \<open>argsort_desc\<close>, which by \<open>argsort_desc_unique\<close> is the only descending order when the
  scores are pairwise distinct): the call with \<^verbatim>\<open>split_thr\<close> above N and the call with
  \<^verbatim>\<open>split_thr\<close> at most N return the same set of kept indices if suppression is per
  class, no coordinate is negative, \<^verbatim>\<open>iou_thr\<close> is not negative and the config holds no
  positive \<^verbatim>\<open>max_num\<close>.
\<close>

lemma split_paths_same_kept_set:
  assumes valid: "valid_batched_input boxes scores idxs cfg"
    and nonneg: "\<forall>r\<in>set (rows boxes). \<forall>x\<in>set r. 0 \<le> x"
    and per_class: "\<not> truthy (pop_value cfg ''class_agnostic'' (VBool class_agnostic))"
    and thr: "0 \<le> to_float (pop_value cfg ''iou_thr'' (VInt 0))"
    and no_limit: "\<not> 0 < to_float (pop_value cfg ''max_num'' (VInt (- 1)))"
    and small: "real (length scores) < to_float small_thr"
    and large: "\<not> real (length scores) < to_float large_thr"
    and c: "c \<le> 1"
  shows "\<exists>dets1 keep1 dets2 keep2.
           snd (batched_nms (jittor_nms c) [cfg(''split_thr'' \<mapsto> small_thr)] boxes scores idxs 0
                  class_agnostic) = Inr (dets1, keep1) \<and>
           snd (batched_nms (jittor_nms c) [cfg(''split_thr'' \<mapsto> large_thr)] boxes scores idxs 0
                  class_agnostic) = Inr (dets2, keep2) \<and>
           set keep1 = set keep2"
proof -
  let ?bfn = "add_offsets boxes idxs"
  let ?iou = "pop_value cfg ''iou_thr'' (VInt 0)"
  let ?mn = "pop_value cfg ''max_num'' (VInt (- 1))"
  let ?whole = "execute (jittor_nms c) (rows ?bfn) scores (to_float ?iou) 0 0 (- 1)"
  have vn: "valid_nms_input ?bfn scores 0" using valid by (rule add_offsets_valid)
  have len: "length (rows ?bfn) = length scores" using vn by (simp add: valid_nms_input_def)
  have four: "\<forall>b\<in>set (rows ?bfn). length b = 4" using vn by (rule valid_rows_four)
  have blen: "length (rows boxes) = length scores" "length idxs = length scores"
    using valid by (simp_all add: valid_batched_input_def)
  have s: "snd (batched_nms (jittor_nms c) [cfg(''split_thr'' \<mapsto> small_thr)] boxes scores idxs 0
              class_agnostic) = small_path (jittor_nms c) boxes ?bfn scores ?iou"
    using per_class small len
    by (simp add: batched_nms_snd Let_def pop_value_upd_same pop_value_upd_other)
  have l: "snd (batched_nms (jittor_nms c) [cfg(''split_thr'' \<mapsto> large_thr)] boxes scores idxs 0
              class_agnostic) = large_path (jittor_nms c) boxes ?bfn scores idxs ?iou ?mn"
    using per_class large len
    by (simp add: batched_nms_snd Let_def pop_value_upd_same pop_value_upd_other)
  obtain n where n: "as_index ?mn = Inr n" using valid_max_num_index [OF valid] by blast
  have ncols: "ncols ?bfn = 4" using vn by (simp add: valid_nms_input_def)
  obtain dets2 keep2 where
    lp: "large_path (jittor_nms c) boxes ?bfn scores idxs ?iou ?mn = Inr (dets2, keep2)"
    and k2: "set keep2 = {j. j < length scores \<and>
        (\<exists>g\<in>set (unique idxs). j \<in> set (group_kept (jittor_nms c) ?bfn scores idxs ?iou g))}"
    using large_path_keep [OF ncols n, of "jittor_nms c" boxes scores idxs ?iou] no_limit by blast
  have range: "\<forall>i\<in>set ?whole. i < length idxs"
    using execute_props(2) [OF len four, of c "to_float ?iou" 0 0 "- 1"] blen by simp
  have "set keep2 = {j. j < length idxs \<and>
        (\<exists>g\<in>set (unique idxs). j \<in> set (filter (\<lambda>i. idxs ! i = g) ?whole))}"
    unfolding k2 by (simp add: group_kept_filter [OF valid nonneg c thr] blen)
  also have "\<dots> = set ?whole" using range by (rule union_of_groups)
  finally have "set ?whole = set keep2" by simp
  then show ?thesis
    unfolding s l lp small_path_valid [OF vn blen(1)] by simp
qed

text \<open>
  Claim C5. The two paths are meant to return the same kept set: the docstring presents
  \<^verbatim>\<open>split_thr\<close> as a way to avoid running out of memory, and only for a number of boxes
  greater than the threshold. The code breaks it: \<^verbatim>\<open>max_num\<close> is popped and applied on the
  large-input path only, which \<^verbatim>\<open>N = split_thr\<close> already takes. With \<^verbatim>\<open>max_num = 1\<close> and
  two boxes far apart, in one group, \<^verbatim>\<open>split_thr = 3\<close> keeps both boxes and
  \<^verbatim>\<open>split_thr = 2\<close> keeps one; under both area conventions.
\<close>

theorem split_paths_differ_with_max_num:
  "snd (batched_nms (jittor_nms 0) [[''max_num'' \<mapsto> VInt 1, ''split_thr'' \<mapsto> VInt 3]]
          \<lparr>ncols = 4, rows = [[0, 0, 1, 1], [5, 5, 6, 6]]\<rparr> [9 / 10, 8 / 10] [0, 0] 0 False)
     = Inr ([[0, 0, 1, 1, 9 / 10], [5, 5, 6, 6, 8 / 10]], [0, 1]) \<and>
   snd (batched_nms (jittor_nms 0) [[''max_num'' \<mapsto> VInt 1, ''split_thr'' \<mapsto> VInt 2]]
          \<lparr>ncols = 4, rows = [[0, 0, 1, 1], [5, 5, 6, 6]]\<rparr> [9 / 10, 8 / 10] [0, 0] 0 False)
     = Inr ([[0, 0, 1, 1, 9 / 10]], [0]) \<and>
   snd (batched_nms (jittor_nms 1) [[''max_num'' \<mapsto> VInt 1, ''split_thr'' \<mapsto> VInt 3]]
          \<lparr>ncols = 4, rows = [[0, 0, 1, 1], [5, 5, 6, 6]]\<rparr> [9 / 10, 8 / 10] [0, 0] 0 False)
     = Inr ([[0, 0, 1, 1, 9 / 10], [5, 5, 6, 6, 8 / 10]], [0, 1]) \<and>
   snd (batched_nms (jittor_nms 1) [[''max_num'' \<mapsto> VInt 1, ''split_thr'' \<mapsto> VInt 2]]
          \<lparr>ncols = 4, rows = [[0, 0, 1, 1], [5, 5, 6, 6]]\<rparr> [9 / 10, 8 / 10] [0, 0] 0 False)
     = Inr ([[0, 0, 1, 1, 9 / 10]], [0]) \<and>
   set [0, 1 :: nat] \<noteq> set [0]"
  by code_simp

text \<open>
  The paths differ in other ways as well. The large-input path
  runs group by group even when \<^verbatim>\<open>class_agnostic\<close> is true, so two equal boxes of
  different groups survive there and not on the small-input path; and a negative
  threshold lets the small-input path suppress across groups, whose
  intersection-over-union is 0.
\<close>

lemma split_paths_differ_class_agnostic:
  "snd (batched_nms (jittor_nms 1) [[''class_agnostic'' \<mapsto> VBool True, ''split_thr'' \<mapsto> VInt 3]]
          \<lparr>ncols = 4, rows = [[0, 0, 2, 2], [0, 0, 2, 2]]\<rparr> [9 / 10, 8 / 10] [0, 1] 0 False)
     = Inr ([[0, 0, 2, 2, 9 / 10]], [0]) \<and>
   snd (batched_nms (jittor_nms 1) [[''class_agnostic'' \<mapsto> VBool True, ''split_thr'' \<mapsto> VInt 2]]
          \<lparr>ncols = 4, rows = [[0, 0, 2, 2], [0, 0, 2, 2]]\<rparr> [9 / 10, 8 / 10] [0, 1] 0 False)
     = Inr ([[0, 0, 2, 2, 9 / 10], [0, 0, 2, 2, 8 / 10]], [0, 1])"
  by code_simp

lemma split_paths_differ_negative_threshold:
  "snd (batched_nms (jittor_nms 1) [[''iou_thr'' \<mapsto> VInt (- 1), ''split_thr'' \<mapsto> VInt 3]]
          \<lparr>ncols = 4, rows = [[0, 0, 1, 1], [5, 5, 6, 6]]\<rparr> [9 / 10, 8 / 10] [0, 1] 0 False)
     = Inr ([[0, 0, 1, 1, 9 / 10]], [0]) \<and>
   snd (batched_nms (jittor_nms 1) [[''iou_thr'' \<mapsto> VInt (- 1), ''split_thr'' \<mapsto> VInt 2]]
          \<lparr>ncols = 4, rows = [[0, 0, 1, 1], [5, 5, 6, 6]]\<rparr> [9 / 10, 8 / 10] [0, 1] 0 False)
     = Inr ([[0, 0, 1, 1, 9 / 10], [5, 5, 6, 6, 8 / 10]], [0, 1])"
  by code_simp

text \<open>
  Claim C1. The docstring promises an offset large enough that boxes of different classes
  do not overlap. With negative coordinates it is not: for two equal boxes with all
  coordinates at most -1, in groups 0 and 1, \<^verbatim>\<open>max_coordinate + 1\<close> is 0, every offset is
  0 and \<^verbatim>\<open>boxes_for_nms\<close> is \<^verbatim>\<open>boxes\<close>. The box of group 1, alone in its group, is
  suppressed by the box of group 0, under both area conventions. The large-input path
  keeps both boxes on the same input.
\<close>

theorem cross_group_suppression_negative_coordinates:
  "rows (add_offsets \<lparr>ncols = 4, rows = [[- 3, - 3, - 1, - 1], [- 3, - 3, - 1, - 1]]\<rparr> [0, 1])
     = [[- 3, - 3, - 1, - 1], [- 3, - 3, - 1, - 1]] \<and>
   snd (batched_nms (jittor_nms 0) [Map.empty]
          \<lparr>ncols = 4, rows = [[- 3, - 3, - 1, - 1], [- 3, - 3, - 1, - 1]]\<rparr> [9 / 10, 8 / 10] [0, 1] 0 False)
     = Inr ([[- 3, - 3, - 1, - 1, 9 / 10]], [0]) \<and>
   snd (batched_nms (jittor_nms 1) [Map.empty]
          \<lparr>ncols = 4, rows = [[- 3, - 3, - 1, - 1], [- 3, - 3, - 1, - 1]]\<rparr> [9 / 10, 8 / 10] [0, 1] 0 False)
     = Inr ([[- 3, - 3, - 1, - 1, 9 / 10]], [0]) \<and>
   snd (batched_nms (jittor_nms 1) [[''split_thr'' \<mapsto> VInt 2]]
          \<lparr>ncols = 4, rows = [[- 3, - 3, - 1, - 1], [- 3, - 3, - 1, - 1]]\<rparr> [9 / 10, 8 / 10] [0, 1] 0 False)
     = Inr ([[- 3, - 3, - 1, - 1, 9 / 10], [- 3, - 3, - 1, - 1, 8 / 10]], [0, 1])"
  by code_simp

end
